theory Spec2Isabelle
  imports Main "HOL-Library.Word"
begin

unbundle bit_operations_syntax

section \<open>Constants of the program and of the headers it includes\<close>

text \<open>
  Error numbers of \<^verbatim>\<open>errno.h\<close> (Linux values) that the service or the model of its
  collaborators produces. A C function returning \<^verbatim>\<open>-E\<close> is modelled by \<open>Inl E\<close>;
  where the source passes the number on as a \<^verbatim>\<open>long\<close>, the model passes
  \<open>- errno_val E\<close>.
\<close>

datatype errno =
  ENOENT | EINTR | EIO | ENOMEM | EACCES | EEXIST | EINVAL | EMFILE | ENOSPC | ERANGE
  | EBADMSG | EADDRNOTAVAIL

fun errno_val :: "errno \<Rightarrow> int" where
  "errno_val ENOENT = 2"
| "errno_val EINTR = 4"
| "errno_val EIO = 5"
| "errno_val ENOMEM = 12"
| "errno_val EACCES = 13"
| "errno_val EEXIST = 17"
| "errno_val EINVAL = 22"
| "errno_val EMFILE = 24"
| "errno_val ENOSPC = 28"
| "errno_val ERANGE = 34"
| "errno_val EBADMSG = 74"
| "errno_val EADDRNOTAVAIL = 99"

text \<open>The enum at the top of \<^verbatim>\<open>main.c\<close>: the exit statuses of the process.\<close>

definition ERROR_PANIC :: int where "ERROR_PANIC = 1"
definition ERROR_MISSING_ADDRESS :: int where "ERROR_MISSING_ADDRESS = 2"
definition EXIT_SUCCESS :: int where "EXIT_SUCCESS = 0"

text \<open>
  Constants of \<^verbatim>\<open>varlink.h\<close> and \<^verbatim>\<open>sd-journal.h\<close>, which are not part of the
  repository; the values are those of the libraries' headers. The program only compares
  them with each other and with zero.
\<close>

definition VARLINK_ERROR_PANIC :: int where "VARLINK_ERROR_PANIC = 1"
definition VARLINK_CALL_MORE :: "64 word" where "VARLINK_CALL_MORE = 1"
definition SIGINT :: int where "SIGINT = 2"
definition SIGTERM :: int where "SIGTERM = 15"
definition SD_JOURNAL_NOP :: int where "SD_JOURNAL_NOP = 0"
definition SD_JOURNAL_APPEND :: int where "SD_JOURNAL_APPEND = 1"
definition SD_JOURNAL_INVALIDATE :: int where "SD_JOURNAL_INVALIDATE = 2"

definition LLONG_MAX :: int where "LLONG_MAX = 2 ^ 63 - 1"
definition LLONG_MIN :: int where "LLONG_MIN = - (2 ^ 63)"
definition INT_MAX :: int where "INT_MAX = 2 ^ 31 - 1"

text \<open>The severity table \<^verbatim>\<open>priorities[]\<close>, indexed by the numeric level.\<close>

definition priorities :: "string list" where
  "priorities =
     [''debug'', ''information'', ''notice'', ''warning'',
      ''error'', ''alert'', ''critical'', ''emergency'']"

section \<open>C strings and numbers\<close>

definition isspace :: "char \<Rightarrow> bool" where
  \<comment> \<open>the C locale: space, \<^verbatim>\<open>\t \n \v \f \r\<close>\<close>
  "isspace c = (of_char c = (32::nat) \<or> (9 \<le> (of_char c :: nat) \<and> (of_char c :: nat) \<le> 13))"

definition isdigit :: "char \<Rightarrow> bool" where
  "isdigit c = (48 \<le> (of_char c :: nat) \<and> (of_char c :: nat) \<le> 57)"

definition digit_val :: "char \<Rightarrow> int" where
  "digit_val c = int (of_char c) - 48"

definition digits_value :: "string \<Rightarrow> int" where
  "digits_value ds = foldl (\<lambda>a c. 10 * a + digit_val c) 0 ds"

text \<open>
  \<^verbatim>\<open>strtoll(string, &end, 10)\<close> on a NUL-terminated string: white space is skipped, one
  sign is accepted, then the longest run of decimal digits is read; whatever follows is
  left alone. The result is the value, saturated to the range of \<^verbatim>\<open>long long\<close>, and
  the offset \<^verbatim>\<open>end - string\<close>, which is 0 exactly when no digit was read.
\<close>

definition strtoll :: "string \<Rightarrow> int \<times> nat" where
  "strtoll s =
     (let ws = takeWhile isspace s;
          s1 = dropWhile isspace s;
          neg = (s1 \<noteq> [] \<and> hd s1 = CHR ''-'');
          sg = (if s1 \<noteq> [] \<and> (hd s1 = CHR ''-'' \<or> hd s1 = CHR ''+'') then 1 else 0);
          ds = takeWhile isdigit (drop sg s1)
      in if ds = [] then (0, 0)
         else (if neg then max LLONG_MIN (- digits_value ds)
               else min LLONG_MAX (digits_value ds),
               length ws + sg + length ds))"

text \<open>\<^verbatim>\<open>strndup(s, n)\<close>: at most \<open>n\<close> bytes of \<open>s\<close>, up to the first NUL byte.\<close>

definition strndup :: "string \<Rightarrow> nat \<Rightarrow> string" where
  "strndup s n = takeWhile (\<lambda>c. c \<noteq> CHR 0x00) (take n s)"

text \<open>The decimal numeral of a natural number, as \<^verbatim>\<open>strftime\<close> prints one.\<close>

fun decimal :: "nat \<Rightarrow> string" where
  "decimal n =
     (if n < 10 then [char_of (48 + n)]
      else decimal (n div 10) @ [char_of (48 + n mod 10)])"

declare decimal.simps [simp del]

definition two_digits :: "nat \<Rightarrow> string" where
  "two_digits n = [char_of (48 + (n div 10) mod 10), char_of (48 + n mod 10)]"

section \<open>Formatting the time stamp\<close>

record tm =
  tm_year :: nat \<comment> \<open>the calendar year (the C field holds it minus 1900)\<close>
  tm_mon :: nat \<comment> \<open>1 to 12 (the C field holds it minus 1)\<close>
  tm_mday :: nat
  tm_hour :: nat
  tm_min :: nat
  tm_sec :: nat

text \<open>
  \<^verbatim>\<open>gmtime_r\<close> for a time at or after the epoch: the proleptic Gregorian date of the
  day, and the time of day. The day number is counted from 1 March of year 0, in eras of
  400 years (146097 days). The call fails when the year does not fit the \<^verbatim>\<open>int\<close>
  field.
\<close>

definition day_of_era :: "nat \<Rightarrow> nat" where
  "day_of_era z = z mod 146097"

definition year_of_era :: "nat \<Rightarrow> nat" where
  "year_of_era doe = (doe - doe div 1460 + doe div 36524 - doe div 146096) div 365"

definition day_of_year :: "nat \<Rightarrow> nat \<Rightarrow> nat" where
  \<comment> \<open>counted from 1 March\<close>
  "day_of_year doe yoe = doe - (365 * yoe + yoe div 4 - yoe div 100)"

definition month_of_year :: "nat \<Rightarrow> nat" where
  \<comment> \<open>counted from March, which is 0\<close>
  "month_of_year doy = (5 * doy + 2) div 153"

definition day_of_month :: "nat \<Rightarrow> nat \<Rightarrow> nat" where
  "day_of_month doy mp = doy - (153 * mp + 2) div 5 + 1"

definition gmtime_r :: "nat \<Rightarrow> tm option" where
  "gmtime_r t =
     (let days = t div 86400; secs = t mod 86400;
          z = days + 719468;
          doe = day_of_era z;
          yoe = year_of_era doe;
          doy = day_of_year doe yoe;
          mp = month_of_year doy;
          m = (if mp < 10 then mp + 3 else mp - 9);
          y = yoe + (z div 146097) * 400 + (if m \<le> 2 then 1 else 0)
      in if int y - 1900 > INT_MAX then None
         else Some \<lparr>tm_year = y, tm_mon = m, tm_mday = day_of_month doy mp,
                    tm_hour = secs div 3600, tm_min = (secs mod 3600) div 60,
                    tm_sec = secs mod 60\<rparr>)"

definition strftime :: "tm \<Rightarrow> string" where
  \<comment> \<open>the format \<^verbatim>\<open>%Y-%m-%d %H:%M:%SZ\<close>; the result always fits the 50 bytes given\<close>
  "strftime t =
     decimal (tm_year t) @ ''-'' @ two_digits (tm_mon t) @ ''-'' @ two_digits (tm_mday t)
     @ '' '' @ two_digits (tm_hour t) @ '':'' @ two_digits (tm_min t) @ '':''
     @ two_digits (tm_sec t) @ ''Z''"

definition format_time_rfc3339 :: "64 word \<Rightarrow> errno + string" where
  "format_time_rfc3339 usec =
     (let time = unat usec div 1000000
      in case gmtime_r time of
           None \<Rightarrow> Inl EINVAL
         | Some t \<Rightarrow> Inr (strftime t))"

section \<open>The log record source\<close>

text \<open>
  The journal library (\<^verbatim>\<open>sd-journal\<close>) is a collaborator outside the repository.
  The model below is an in-memory log: the records in the order the log holds them
  (oldest first), and the read position of one open handle. It follows the library's
  manual pages \<^verbatim>\<open>sd_journal_next(3)\<close>, \<^verbatim>\<open>sd_journal_seek_head(3)\<close>,
  \<^verbatim>\<open>sd_journal_get_cursor(3)\<close> and \<^verbatim>\<open>sd_journal_get_data(3)\<close>.
\<close>

record log_record =
  r_cursor :: string \<comment> \<open>the token \<^verbatim>\<open>sd_journal_get_cursor\<close> gives for the record\<close>
  r_realtime :: "64 word" \<comment> \<open>wall-clock time stamp, microseconds\<close>
  r_fields :: "(string \<times> string) list" \<comment> \<open>field name and value bytes\<close>

text \<open>
  The read position. A seek call only notes an address; the next call of
  \<^verbatim>\<open>sd_journal_next\<close> or \<^verbatim>\<open>sd_journal_previous\<close> makes a record the current one
  (\<open>LOCATION_DISCRETE\<close>, with its index in the log).
\<close>

datatype location =
  LOCATION_HEAD
  | LOCATION_TAIL
  | LOCATION_SEEK string
  | LOCATION_DISCRETE nat

record sd_journal =
  j_fd :: int \<comment> \<open>the descriptor \<^verbatim>\<open>sd_journal_get_fd\<close> returns\<close>
  j_entries :: "log_record list"
  j_loc :: location

definition current_record :: "sd_journal \<Rightarrow> log_record option" where
  "current_record j =
     (case j_loc j of
        LOCATION_DISCRETE i \<Rightarrow> (if i < length (j_entries j) then Some (j_entries j ! i) else None)
      | _ \<Rightarrow> None)"

fun find_cursor :: "string \<Rightarrow> log_record list \<Rightarrow> nat option" where
  "find_cursor c [] = None"
| "find_cursor c (r # rs) =
     (if r_cursor r = c then Some 0 else map_option Suc (find_cursor c rs))"

definition sd_journal_get_fd :: "sd_journal \<Rightarrow> int" where
  "sd_journal_get_fd j = j_fd j"

definition sd_journal_seek_tail :: "sd_journal \<Rightarrow> sd_journal \<times> (errno + unit)" where
  "sd_journal_seek_tail j = (j\<lparr>j_loc := LOCATION_TAIL\<rparr>, Inr ())"

definition sd_journal_seek_cursor :: "sd_journal \<Rightarrow> string \<Rightarrow> sd_journal \<times> (errno + unit)" where
  "sd_journal_seek_cursor j c = (j\<lparr>j_loc := LOCATION_SEEK c\<rparr>, Inr ())"

text \<open>
  \<^verbatim>\<open>sd_journal_next\<close>: returns 1 and makes a record current, or returns 0 at the end
  of the log and leaves the position as it is. After a seek to a cursor, the record
  sought to is the one located at the cursor, and the call makes that record current;
  after a seek to the tail there is no record to advance to. A token that no record of the
  log carries finds nothing in this model (the library would take the closest record; the
  tokens are opaque here and carry no order).
\<close>

definition sd_journal_next :: "sd_journal \<Rightarrow> sd_journal \<times> (errno + nat)" where
  "sd_journal_next j =
     (case j_loc j of
        LOCATION_HEAD \<Rightarrow>
          (if j_entries j = [] then (j, Inr 0) else (j\<lparr>j_loc := LOCATION_DISCRETE 0\<rparr>, Inr 1))
      | LOCATION_TAIL \<Rightarrow> (j, Inr 0)
      | LOCATION_SEEK c \<Rightarrow>
          (case find_cursor c (j_entries j) of
             None \<Rightarrow> (j, Inr 0)
           | Some i \<Rightarrow> (j\<lparr>j_loc := LOCATION_DISCRETE i\<rparr>, Inr 1))
      | LOCATION_DISCRETE i \<Rightarrow>
          (if Suc i < length (j_entries j) then (j\<lparr>j_loc := LOCATION_DISCRETE (Suc i)\<rparr>, Inr 1)
           else (j, Inr 0)))"

text \<open>\<^verbatim>\<open>sd_journal_previous\<close>: the same, towards the head of the log.\<close>

definition sd_journal_previous :: "sd_journal \<Rightarrow> sd_journal \<times> (errno + nat)" where
  "sd_journal_previous j =
     (case j_loc j of
        LOCATION_HEAD \<Rightarrow> (j, Inr 0)
      | LOCATION_TAIL \<Rightarrow>
          (if j_entries j = [] then (j, Inr 0)
           else (j\<lparr>j_loc := LOCATION_DISCRETE (length (j_entries j) - 1)\<rparr>, Inr 1))
      | LOCATION_SEEK c \<Rightarrow>
          (case find_cursor c (j_entries j) of
             None \<Rightarrow> (j, Inr 0)
           | Some i \<Rightarrow> (j\<lparr>j_loc := LOCATION_DISCRETE i\<rparr>, Inr 1))
      | LOCATION_DISCRETE i \<Rightarrow>
          (if 0 < i \<and> i \<le> length (j_entries j) then (j\<lparr>j_loc := LOCATION_DISCRETE (i - 1)\<rparr>, Inr 1)
           else (j, Inr 0)))"

text \<open>
  \<^verbatim>\<open>sd_journal_previous_skip(j, skip)\<close>: steps back \<open>skip\<close> times and returns the number
  of steps made, which is smaller than \<open>skip\<close> when the head of the log is reached. The
  position then stays on the oldest record. The library refuses a \<open>skip\<close> above
  \<^verbatim>\<open>INT_MAX\<close> with \<^verbatim>\<open>-ERANGE\<close> and leaves the position alone.
\<close>

fun previous_steps :: "nat \<Rightarrow> sd_journal \<Rightarrow> nat \<Rightarrow> sd_journal \<times> (errno + nat)" where
  "previous_steps 0 j c = (j, Inr c)"
| "previous_steps (Suc skip) j c =
     (case sd_journal_previous j of
        (j', Inl e) \<Rightarrow> (j', Inl e)
      | (j', Inr r) \<Rightarrow> (if r = 0 then (j', Inr c) else previous_steps skip j' (Suc c)))"

definition sd_journal_previous_skip :: "sd_journal \<Rightarrow> nat \<Rightarrow> sd_journal \<times> (errno + nat)" where
  "sd_journal_previous_skip j skip =
     (if int skip > INT_MAX then (j, Inl ERANGE)
      else if skip = 0 then
        (case j_loc j of
           LOCATION_DISCRETE i \<Rightarrow> (j, Inr 0)
         | _ \<Rightarrow> (case sd_journal_previous j of
                  (j', Inl e) \<Rightarrow> (j', Inl e)
                | (j', Inr r) \<Rightarrow> (j', Inr 0)))
      else previous_steps skip j 0)"

definition sd_journal_get_cursor :: "sd_journal \<Rightarrow> errno + string" where
  "sd_journal_get_cursor j =
     (case current_record j of None \<Rightarrow> Inl EADDRNOTAVAIL | Some r \<Rightarrow> Inr (r_cursor r))"

definition sd_journal_get_realtime_usec :: "sd_journal \<Rightarrow> errno + 64 word" where
  "sd_journal_get_realtime_usec j =
     (case current_record j of None \<Rightarrow> Inl EADDRNOTAVAIL | Some r \<Rightarrow> Inr (r_realtime r))"

text \<open>
  \<^verbatim>\<open>sd_journal_get_data\<close>: the data of the current record's field, which is the field
  name, \<^verbatim>\<open>=\<close> and the value; \<^verbatim>\<open>-ENOENT\<close> when the record has no such field.
\<close>

definition sd_journal_get_data :: "sd_journal \<Rightarrow> string \<Rightarrow> errno + string" where
  "sd_journal_get_data j field =
     (case current_record j of
        None \<Rightarrow> Inl EADDRNOTAVAIL
      | Some r \<Rightarrow>
          (case map_of (r_fields r) field of
             None \<Rightarrow> Inl ENOENT
           | Some v \<Rightarrow> Inr (field @ ''='' @ v)))"

text \<open>
  \<^verbatim>\<open>sd_journal_process\<close>: the library takes note of what happened to the log since the
  last call and says which kind of change it was. Both are inputs from outside: the
  records the log holds now, and the value returned.
\<close>

definition sd_journal_process :: "sd_journal \<Rightarrow> int \<times> log_record list \<Rightarrow> sd_journal \<times> int" where
  "sd_journal_process j change = (j\<lparr>j_entries := snd change\<rparr>, fst change)"

section \<open>The entry translator\<close>

definition journal_get_string :: "sd_journal \<Rightarrow> string \<Rightarrow> errno + string" where
  "journal_get_string j field =
     (case sd_journal_get_data j field of
        Inl e \<Rightarrow> Inl e
      | Inr data \<Rightarrow>
          (let field_length = length field + 1
           in if length data < field_length then Inl EBADMSG
              else Inr (strndup (drop field_length data) (length data - field_length))))"

definition journal_get_int :: "sd_journal \<Rightarrow> string \<Rightarrow> errno + int" where
  "journal_get_int j field =
     (case journal_get_string j field of
        Inl e \<Rightarrow> Inl e
      | Inr string \<Rightarrow>
          (case strtoll string of
             (number, end) \<Rightarrow> if end = 0 then Inl EINVAL else Inr number))"

text \<open>The wire entry: the object with the fields the translator sets.\<close>

record entry =
  e_cursor :: string
  e_time :: string
  e_message :: string
  e_priority :: "string option"
  e_process :: "string option"

text \<open>
  \<^verbatim>\<open>journal_read_next_entry\<close>: \<open>Inl e\<close> is the negative return, \<open>Inr None\<close> the
  return of 0 (no record left), \<open>Inr (Some entry)\<close> the return of 1.
\<close>

definition journal_read_next_entry :: "sd_journal \<Rightarrow> sd_journal \<times> (errno + entry option)" where
  "journal_read_next_entry j0 =
     (case sd_journal_next j0 of
        (j, Inl e) \<Rightarrow> (j, Inl e)
      | (j, Inr r) \<Rightarrow>
          if r = 0 then (j, Inr None)
          else
            (case sd_journal_get_cursor j of
               Inl e \<Rightarrow> (j, Inl e)
             | Inr cursor \<Rightarrow>
            (case sd_journal_get_realtime_usec j of
               Inl e \<Rightarrow> (j, Inl e)
             | Inr usec \<Rightarrow>
            (case format_time_rfc3339 usec of
               Inl e \<Rightarrow> (j, Inl e)
             | Inr timestr \<Rightarrow>
            (case journal_get_string j ''MESSAGE'' of
               Inl e \<Rightarrow> (j, Inl e)
             | Inr message \<Rightarrow>
            (case (case journal_get_int j ''PRIORITY'' of
                     Inl e \<Rightarrow> if e \<noteq> ENOENT then Inl e else Inr (- 1)
                   | Inr number \<Rightarrow> Inr number) of
               Inl e \<Rightarrow> (j, Inl e)
             | Inr priority \<Rightarrow>
                 (let entry = \<lparr>e_cursor = cursor, e_time = timestr, e_message = message,
                               e_priority = (if priority \<ge> 0 \<and> priority \<le> 7
                                             then Some (priorities ! nat priority) else None),
                               e_process =
                                 (case journal_get_string j ''SYSLOG_IDENTIFIER'' of
                                    Inr process \<Rightarrow> Some process
                                  | Inl _ \<Rightarrow>
                                      (case journal_get_string j ''_COMM'' of
                                         Inr process \<Rightarrow> Some process
                                       | Inl _ \<Rightarrow> None))\<rparr>
                  in (j, Inr (Some entry)))))))))"

section \<open>The Monitor and what it touches\<close>

type_synonym VarlinkCall = nat

text \<open>What a descriptor was registered with: the \<^verbatim>\<open>data.ptr\<close> of its epoll event.\<close>

datatype tag = TAG_SERVICE | TAG_NULL | TAG_MONITOR VarlinkCall

datatype frame =
  Reply "entry list" bool \<comment> \<open>the \<^verbatim>\<open>entries\<close> array, and whether more replies follow\<close>
  | InvalidParameter string

text \<open>
  The part of the process state the functions below change: the interest list of the
  epoll instance, the descriptors of the journal handles that are open, and the replies
  given to the transport, oldest first.
\<close>

record world =
  epoll :: "int \<rightharpoonup> tag"
  journals :: "int set"
  replies :: "(VarlinkCall \<times> frame) list"

text \<open>
  What the collaborators answer during one run of a function, where the answer does not
  follow from the state above: whether the journal opens (and then its descriptor and
  the records it holds), whether the descriptor can be added to the epoll instance, and
  the value the transport returns from a reply.
\<close>

record env =
  env_journal_open :: "errno + int \<times> log_record list"
  env_epoll_add :: "errno option"
  env_reply :: int

record Monitor =
  call :: VarlinkCall
  journal :: "sd_journal option" \<comment> \<open>\<open>None\<close> is the NULL pointer\<close>
  cursor :: "string option"
  epoll_fd :: int

definition sd_journal_open :: "env \<Rightarrow> world \<Rightarrow> world \<times> (errno + sd_journal)" where
  "sd_journal_open ev w =
     (case env_journal_open ev of
        Inl e \<Rightarrow> (w, Inl e)
      | Inr (fd, records) \<Rightarrow>
          (w\<lparr>journals := insert fd (journals w)\<rparr>,
           Inr \<lparr>j_fd = fd, j_entries = records, j_loc = LOCATION_HEAD\<rparr>))"

definition sd_journal_close :: "sd_journal \<Rightarrow> world \<Rightarrow> world" where
  "sd_journal_close j w = w\<lparr>journals := journals w - {j_fd j}\<rparr>"

definition epoll_add :: "env \<Rightarrow> world \<Rightarrow> int \<Rightarrow> int \<Rightarrow> tag \<Rightarrow> world \<times> (errno + unit)" where
  \<comment> \<open>\<open>Inl e\<close>: \<^verbatim>\<open>epoll_ctl\<close> returned -1 and set \<^verbatim>\<open>errno\<close> to \<open>e\<close>\<close>
  "epoll_add ev w efd fd ptr =
     (case env_epoll_add ev of
        Some e \<Rightarrow> (w, Inl e)
      | None \<Rightarrow> (w\<lparr>epoll := (epoll w)(fd \<mapsto> ptr)\<rparr>, Inr ()))"

definition epoll_del :: "world \<Rightarrow> int \<Rightarrow> int \<Rightarrow> world" where
  \<comment> \<open>\<^verbatim>\<open>epoll_ctl(efd, EPOLL_CTL_DEL, fd, NULL)\<close>, its result ignored\<close>
  "epoll_del w efd fd = w\<lparr>epoll := (epoll w)(fd := None)\<rparr>"

definition varlink_call_reply :: "env \<Rightarrow> world \<Rightarrow> VarlinkCall \<Rightarrow> frame \<Rightarrow> world \<times> int" where
  "varlink_call_reply ev w c f = (w\<lparr>replies := replies w @ [(c, f)]\<rparr>, env_reply ev)"

definition varlink_call_reply_invalid_parameter ::
  "env \<Rightarrow> world \<Rightarrow> VarlinkCall \<Rightarrow> string \<Rightarrow> world \<times> int" where
  "varlink_call_reply_invalid_parameter ev w c name =
     varlink_call_reply ev w c (InvalidParameter name)"

text \<open>
  \<^verbatim>\<open>monitor_free\<close>. The reference to the call and the memory of the structure are
  not part of the state; the caller drops the Monitor.
\<close>

definition monitor_free :: "Monitor \<Rightarrow> world \<Rightarrow> world" where
  "monitor_free monitor w =
     (case journal monitor of
        Some j \<Rightarrow> sd_journal_close j (epoll_del w (epoll_fd monitor) (sd_journal_get_fd j))
      | None \<Rightarrow> w)"

definition monitor_canceled :: "Monitor \<Rightarrow> world \<Rightarrow> world" where
  "monitor_canceled monitor w = monitor_free monitor w"

text \<open>
  \<^verbatim>\<open>monitor_new\<close>. Every early return runs the cleanup handler of the local
  \<^verbatim>\<open>monitor\<close>, that is \<^verbatim>\<open>monitor_free\<close>; the return of 0 hands the Monitor over.
\<close>

definition monitor_new :: "env \<Rightarrow> world \<Rightarrow> VarlinkCall \<Rightarrow> int \<Rightarrow> world \<times> (errno + Monitor)" where
  "monitor_new ev w c efd =
     (let monitor = \<lparr>call = c, journal = None, cursor = None, epoll_fd = efd\<rparr>
      in case sd_journal_open ev w of
           (w1, Inl e) \<Rightarrow> (monitor_free monitor w1, Inl e)
         | (w1, Inr j) \<Rightarrow>
             (let monitor = monitor\<lparr>journal := Some j\<rparr>
              in case epoll_add ev w1 efd (sd_journal_get_fd j) (TAG_MONITOR c) of
                   (w2, Inl e) \<Rightarrow> (monitor_free monitor w2, Inl e)
                 | (w2, Inr _) \<Rightarrow>
                     (case sd_journal_seek_tail j of
                        (j', Inl e) \<Rightarrow> (monitor_free (monitor\<lparr>journal := Some j'\<rparr>) w2, Inl e)
                      | (j', Inr _) \<Rightarrow> (w2, Inr (monitor\<lparr>journal := Some j'\<rparr>)))))"

section \<open>The read-batch procedure\<close>

text \<open>The number of records \<^verbatim>\<open>sd_journal_next\<close> can still step to.\<close>

definition to_read :: "sd_journal \<Rightarrow> nat" where
  "to_read j =
     (case j_loc j of
        LOCATION_HEAD \<Rightarrow> length (j_entries j)
      | LOCATION_TAIL \<Rightarrow> 0
      | LOCATION_SEEK c \<Rightarrow>
          (case find_cursor c (j_entries j) of None \<Rightarrow> 0 | Some i \<Rightarrow> length (j_entries j) - i)
      | LOCATION_DISCRETE i \<Rightarrow> length (j_entries j) - Suc i)"

lemma find_cursor_less: "find_cursor c rs = Some i \<Longrightarrow> i < length rs"
  by (induction rs arbitrary: i) (auto split: if_splits)

lemma sd_journal_next_to_read:
  "sd_journal_next j = (j', Inr r) \<Longrightarrow> r \<noteq> 0 \<Longrightarrow> to_read j' < to_read j"
  by (auto simp: sd_journal_next_def to_read_def split: location.splits if_splits option.splits
        dest: find_cursor_less)

lemma journal_read_next_entry_to_read:
  "journal_read_next_entry j = (j', Inr (Some e)) \<Longrightarrow> to_read j' < to_read j"
  unfolding journal_read_next_entry_def
  by (auto split: prod.splits sum.splits if_splits dest: sd_journal_next_to_read)

text \<open>
  The loop of \<^verbatim>\<open>monitor_read_entries\<close>, with the array and the counter it builds.
\<close>

function read_loop ::
  "sd_journal \<Rightarrow> entry list \<Rightarrow> int \<Rightarrow> sd_journal \<times> (errno + entry list \<times> int)" where
  "read_loop j entries n_read =
     (case journal_read_next_entry j of
        (j', Inl e) \<Rightarrow> (j', Inl e)
      | (j', Inr None) \<Rightarrow> (j', Inr (entries, n_read))
      | (j', Inr (Some entry)) \<Rightarrow> read_loop j' (entries @ [entry]) (n_read + 1))"
  by pat_completeness auto
termination
  by (relation "measure (\<lambda>(j, entries, n_read). to_read j)")
     (auto dest: journal_read_next_entry_to_read [OF sym])

declare read_loop.simps [simp del]

text \<open>
  \<^verbatim>\<open>monitor_read_entries\<close>: \<open>Inl r\<close> is the negative return \<open>r\<close>, \<open>Inr (entries, n)\<close>
  the return of \<open>n\<close> with the array handed over. A NULL journal makes the library's
  \<^verbatim>\<open>sd_journal_next\<close> return \<^verbatim>\<open>-EINVAL\<close>.
\<close>

definition monitor_read_entries :: "Monitor \<Rightarrow> Monitor \<times> (int + entry list \<times> int)" where
  "monitor_read_entries monitor =
     (case journal monitor of
        None \<Rightarrow> (monitor, Inl (- VARLINK_ERROR_PANIC))
      | Some j \<Rightarrow>
          (case read_loop j [] 0 of
             (j', Inl e) \<Rightarrow> (monitor\<lparr>journal := Some j'\<rparr>, Inl (- VARLINK_ERROR_PANIC))
           | (j', Inr (entries, n_read)) \<Rightarrow>
               (let monitor = monitor\<lparr>journal := Some j', cursor := None\<rparr>
                in if n_read > 0 then
                     (case sd_journal_get_cursor j' of
                        Inl e \<Rightarrow> (monitor, Inl (- VARLINK_ERROR_PANIC))
                      | Inr c \<Rightarrow> (monitor\<lparr>cursor := Some c\<rparr>, Inr (entries, n_read)))
                   else (monitor, Inr (entries, n_read)))))"

section \<open>Dispatch of a streaming session\<close>

text \<open>
  \<^verbatim>\<open>monitor_dispatch\<close>, given what \<^verbatim>\<open>sd_journal_process\<close> reports. The result is
  the state, the Monitor as the call leaves it, and the \<^verbatim>\<open>long\<close> returned.
\<close>

definition monitor_dispatch ::
  "env \<Rightarrow> Monitor \<Rightarrow> int \<times> log_record list \<Rightarrow> world \<Rightarrow> world \<times> Monitor \<times> int" where
  "monitor_dispatch ev monitor change w =
     (case journal monitor of
        None \<Rightarrow> (w, monitor, 0)
      | Some j0 \<Rightarrow>
          (case sd_journal_process j0 change of
             (j1, event) \<Rightarrow>
               (let sought =
                      (if event = SD_JOURNAL_INVALIDATE then
                         (case cursor monitor of
                            Some c \<Rightarrow> (case sd_journal_seek_cursor j1 c of
                                         (j2, Inl e) \<Rightarrow> (j2, Some (- VARLINK_ERROR_PANIC))
                                       | (j2, Inr _) \<Rightarrow> (j2, None))
                          | None \<Rightarrow> (case sd_journal_seek_tail j1 of
                                       (j2, Inl e) \<Rightarrow> (j2, Some (- VARLINK_ERROR_PANIC))
                                     | (j2, Inr _) \<Rightarrow> (j2, None)))
                       else if event \<noteq> SD_JOURNAL_APPEND then (j1, Some 0)
                       else (j1, None))
                in case sought of
                     (j2, Some r) \<Rightarrow> (w, monitor\<lparr>journal := Some j2\<rparr>, r)
                   | (j2, None) \<Rightarrow>
                       (case monitor_read_entries (monitor\<lparr>journal := Some j2\<rparr>) of
                          (monitor', Inl r) \<Rightarrow> (w, monitor', r)
                        | (monitor', Inr (entries, r)) \<Rightarrow>
                            if r = 0 then (w, monitor', 0)
                            else (case varlink_call_reply ev w (call monitor') (Reply entries True) of
                                    (w', r') \<Rightarrow> (w', monitor', r'))))))"

section \<open>The handler of the Monitor method\<close>

definition varlink_object_get_int :: "(string \<times> 64 word) list \<Rightarrow> string \<Rightarrow> 64 word \<Rightarrow> 64 word" where
  \<comment> \<open>the third argument is what the variable held before; it stays when the field is absent\<close>
  "varlink_object_get_int parameters name old =
     (case map_of parameters name of None \<Rightarrow> old | Some v \<Rightarrow> v)"

text \<open>
  \<^verbatim>\<open>com_redhat_logging_monitor\<close>. The result is the state, the \<^verbatim>\<open>long\<close> returned,
  and the Monitor that lives on after the return: \<open>Some\<close> when the handler gave it to
  the connection-closed callback, \<open>None\<close> when the cleanup handler freed it.
\<close>

definition com_redhat_logging_monitor ::
  "env \<Rightarrow> world \<Rightarrow> VarlinkCall \<Rightarrow> (string \<times> 64 word) list \<Rightarrow> 64 word \<Rightarrow> int
     \<Rightarrow> world \<times> int \<times> Monitor option" where
  "com_redhat_logging_monitor ev w c parameters flags efd =
     (case monitor_new ev w c efd of
        (w1, Inl e) \<Rightarrow> (w1, - errno_val e, None)
      | (w1, Inr monitor) \<Rightarrow>
          (let initial_lines = varlink_object_get_int parameters ''initial_lines'' 10
           in if initial_lines <s 0 then
                (case varlink_call_reply_invalid_parameter ev w1 c ''initial_lines'' of
                   (w2, r) \<Rightarrow> (monitor_free monitor w2, r, None))
              else
                (case journal monitor of
                   None \<Rightarrow> (monitor_free monitor w1, - errno_val EINVAL, None)
                 | Some j \<Rightarrow>
                (case sd_journal_previous_skip j (unat (initial_lines + 1)) of
                   (j', Inl e) \<Rightarrow>
                     (monitor_free (monitor\<lparr>journal := Some j'\<rparr>) w1, - errno_val e, None)
                 | (j', Inr _) \<Rightarrow>
                (case monitor_read_entries (monitor\<lparr>journal := Some j'\<rparr>) of
                   (monitor', Inl r) \<Rightarrow> (monitor_free monitor' w1, r, None)
                 | (monitor', Inr (entries, _)) \<Rightarrow>
                (case varlink_call_reply ev w1 c
                        (Reply entries (flags AND VARLINK_CALL_MORE \<noteq> 0)) of
                   (w2, r) \<Rightarrow>
                     if r < 0 then (monitor_free monitor' w2, r, None)
                     else if flags AND VARLINK_CALL_MORE \<noteq> 0 then (w2, 0, Some monitor')
                     else (monitor_free monitor' w2, 0, None)))))))"

section \<open>One turn of the main loop\<close>

datatype wait_result =
  WAIT_FAILED errno \<comment> \<open>\<^verbatim>\<open>epoll_wait\<close> returned a negative number\<close>
  | WAIT_NONE
  | WAIT_EVENT tag

datatype turn = CONTINUE | RETURN int

definition exit_error :: "int \<Rightarrow> int" where
  \<comment> \<open>prints the name of the error and returns its number\<close>
  "exit_error error = error"

text \<open>
  The body of the loop in \<^verbatim>\<open>main\<close>. For the service's descriptor the transport
  processes its events and for the signal descriptor a signal is read; both results are
  inputs. For any other descriptor the tag is the Monitor to dispatch.
\<close>

definition main_turn ::
  "env \<Rightarrow> wait_result \<Rightarrow> int \<Rightarrow> int \<Rightarrow> Monitor \<Rightarrow> int \<times> log_record list \<Rightarrow> world
     \<Rightarrow> world \<times> Monitor \<times> turn" where
  "main_turn ev n service_result signo monitor change w =
     (case n of
        WAIT_FAILED e \<Rightarrow>
          if e = EINTR then (w, monitor, CONTINUE)
          else (w, monitor, RETURN (exit_error ERROR_PANIC))
      | WAIT_NONE \<Rightarrow> (w, monitor, CONTINUE)
      | WAIT_EVENT TAG_SERVICE \<Rightarrow>
          if service_result = 0 then (w, monitor, CONTINUE)
          else if service_result = - VARLINK_ERROR_PANIC
          then (w, monitor, RETURN (exit_error ERROR_PANIC))
          else (w, monitor, CONTINUE)
      | WAIT_EVENT TAG_NULL \<Rightarrow>
          if signo = SIGTERM \<or> signo = SIGINT then (w, monitor, RETURN EXIT_SUCCESS)
          else (w, monitor, RETURN (exit_error ERROR_PANIC))
      | WAIT_EVENT (TAG_MONITOR _) \<Rightarrow>
          (case monitor_dispatch ev monitor change w of
             (w', monitor', r) \<Rightarrow>
               if r = 0 then (w', monitor', CONTINUE)
               else if r = - VARLINK_ERROR_PANIC
               then (w', monitor', RETURN (exit_error ERROR_PANIC))
               else (w', monitor', CONTINUE)))"

section \<open>Notions used to state the properties\<close>

text \<open>
  The bytes of a field value up to the first NUL byte: the value as the C string that the
  translator copies. A value without a NUL byte is its own C string.
\<close>

definition c_string :: "string \<Rightarrow> string" where
  "c_string v = takeWhile (\<lambda>c. c \<noteq> CHR 0x00) v"

text \<open>
  A text has a leading integer when, after white space and at most one sign, it goes on
  with a decimal digit.
\<close>

definition leading_integer :: "string \<Rightarrow> bool" where
  "leading_integer s =
     (let s1 = dropWhile isspace s;
          s2 = (if s1 \<noteq> [] \<and> (hd s1 = CHR ''-'' \<or> hd s1 = CHR ''+'') then tl s1 else s1)
      in s2 \<noteq> [] \<and> isdigit (hd s2))"

text \<open>
  A record translates when it has a message, and its priority, if it has one, starts with
  an integer.
\<close>

definition translatable :: "log_record \<Rightarrow> bool" where
  "translatable r =
     (map_of (r_fields r) ''MESSAGE'' \<noteq> None \<and>
      (case map_of (r_fields r) ''PRIORITY'' of
         None \<Rightarrow> True
       | Some v \<Rightarrow> leading_integer (c_string v)))"

text \<open>
  The Wire Entry of a record that translates: resume token, formatted time stamp,
  message text, the severity name of a level from 0 to 7, and the process name, for which
  the declared identifier goes before the command name.
\<close>

definition wire_entry :: "log_record \<Rightarrow> entry" where
  "wire_entry r =
     \<lparr>e_cursor = r_cursor r,
      e_time = (case format_time_rfc3339 (r_realtime r) of Inr s \<Rightarrow> s | Inl _ \<Rightarrow> []),
      e_message = (case map_of (r_fields r) ''MESSAGE'' of Some m \<Rightarrow> c_string m | None \<Rightarrow> []),
      e_priority =
        (case map_of (r_fields r) ''PRIORITY'' of
           None \<Rightarrow> None
         | Some v \<Rightarrow>
             (let level = fst (strtoll (c_string v))
              in if 0 \<le> level \<and> level \<le> 7 then Some (priorities ! nat level) else None)),
      e_process =
        (case map_of (r_fields r) ''SYSLOG_IDENTIFIER'' of
           Some declared \<Rightarrow> Some (c_string declared)
         | None \<Rightarrow> map_option c_string (map_of (r_fields r) ''_COMM''))\<rparr>"

text \<open>The index of the record that the next step forward makes current, if there is one.\<close>

definition next_index :: "sd_journal \<Rightarrow> nat option" where
  "next_index j =
     (case j_loc j of
        LOCATION_HEAD \<Rightarrow> (if j_entries j = [] then None else Some 0)
      | LOCATION_TAIL \<Rightarrow> None
      | LOCATION_SEEK c \<Rightarrow> find_cursor c (j_entries j)
      | LOCATION_DISCRETE i \<Rightarrow> (if Suc i < length (j_entries j) then Some (Suc i) else None))"

text \<open>
  Sample data: a log of three records with the levels 6, 3 and none, and a journal handle
  and a Monitor on a given log at a given position.
\<close>

definition scenario_log :: "log_record list" where
  "scenario_log =
     [\<lparr>r_cursor = ''c0'', r_realtime = 1000000,
       r_fields = [(''MESSAGE'', ''boot ok''), (''PRIORITY'', ''6''), (''_COMM'', ''init'')]\<rparr>,
      \<lparr>r_cursor = ''c1'', r_realtime = 2000000,
       r_fields = [(''MESSAGE'', ''disk warn''), (''PRIORITY'', ''3''),
                   (''SYSLOG_IDENTIFIER'', ''kernel''), (''_COMM'', ''kthread'')]\<rparr>,
      \<lparr>r_cursor = ''c2'', r_realtime = 3000000,
       r_fields = [(''MESSAGE'', ''heartbeat'')]\<rparr>]"

definition journal_at :: "log_record list \<Rightarrow> location \<Rightarrow> sd_journal" where
  "journal_at records loc = \<lparr>j_fd = 7, j_entries = records, j_loc = loc\<rparr>"

definition monitor_at :: "log_record list \<Rightarrow> location \<Rightarrow> string option \<Rightarrow> Monitor" where
  "monitor_at records loc c =
     \<lparr>call = 1, journal = Some (journal_at records loc), cursor = c, epoll_fd = 4\<rparr>"

definition priority_log :: "string \<Rightarrow> log_record list" where
  "priority_log v =
     [\<lparr>r_cursor = ''p0'', r_realtime = 0,
       r_fields = [(''MESSAGE'', ''text''), (''PRIORITY'', v)]\<rparr>]"

definition world0 :: world where
  "world0 = \<lparr>epoll = Map.empty, journals = {}, replies = []\<rparr>"

definition env_of :: "errno + int \<times> log_record list \<Rightarrow> env" where
  "env_of opened = \<lparr>env_journal_open = opened, env_epoll_add = None, env_reply = 0\<rparr>"

definition broken_log :: "log_record list" where
  "broken_log = scenario_log @ priority_log ''high''"

section \<open>Numbers and time stamps\<close>

lemma c_string_id: "CHR 0x00 \<notin> set v \<Longrightarrow> c_string v = v"
  by (auto simp: c_string_def takeWhile_eq_all_conv)

lemma strndup_whole: "strndup v (length v) = c_string v"
  by (simp add: strndup_def c_string_def)

lemma strtoll_end: "snd (strtoll s) = 0 \<longleftrightarrow> \<not> leading_integer s"
proof (cases "dropWhile isspace s")
  case Nil
  show ?thesis unfolding strtoll_def leading_integer_def Let_def Nil by simp
next
  case (Cons c t)
  show ?thesis unfolding strtoll_def leading_integer_def Let_def Cons
    by (cases t) (auto simp: takeWhile_eq_Nil_iff)
qed

lemma isdigit_char_of: "(k::nat) < 10 \<Longrightarrow> isdigit (char_of (48 + k))"
  by (simp add: isdigit_def)

lemma digit_val_char_of: "(k::nat) < 10 \<Longrightarrow> digit_val (char_of (48 + k)) = int k"
  by (simp add: digit_val_def)

lemma decimal_digits: "\<forall>c \<in> set (decimal n). isdigit c"
  by (induction n rule: decimal.induct) (subst decimal.simps, auto simp: isdigit_char_of)

lemma decimal_not_Nil: "decimal n \<noteq> []"
  by (subst decimal.simps) simp

lemma digits_value_snoc: "digits_value (ds @ [c]) = 10 * digits_value ds + digit_val c"
  by (simp add: digits_value_def)

lemma digits_value_decimal: "digits_value (decimal n) = int n"
proof (induction n rule: decimal.induct)
  case (1 n)
  show ?case
  proof (cases "n < 10")
    case True
    then show ?thesis
      by (subst decimal.simps) (simp add: digits_value_def digit_val_char_of)
  next
    case False
    with 1 have "digits_value (decimal (n div 10)) = int (n div 10)" by simp
    moreover have "10 * int (n div 10) + int (n mod 10) = int n"
      by (simp add: of_nat_div of_nat_mod)
    ultimately show ?thesis
      using False by (subst decimal.simps) (simp add: digits_value_snoc digit_val_char_of)
  qed
qed

lemma isdigit_not_space: "isdigit c \<Longrightarrow> \<not> isspace c"
  by (auto simp: isdigit_def isspace_def)

lemma isdigit_not_sign: "isdigit c \<Longrightarrow> c \<noteq> CHR ''-'' \<and> c \<noteq> CHR ''+''"
  by (auto simp: isdigit_def)

lemma isdigit_not_NUL: "isdigit c \<Longrightarrow> c \<noteq> CHR 0x00"
  by (auto simp: isdigit_def)

lemma takeWhile_digits:
  "\<forall>c \<in> set ds. isdigit c \<Longrightarrow> rest = [] \<or> \<not> isdigit (hd rest) \<Longrightarrow>
   takeWhile isdigit (ds @ rest) = ds"
  by (cases rest) (auto simp: takeWhile_append)

lemma strtoll_digits:
  assumes "\<forall>c \<in> set ds. isdigit c" and "ds \<noteq> []" and "rest = [] \<or> \<not> isdigit (hd rest)"
  shows "strtoll (ds @ rest) = (min LLONG_MAX (digits_value ds), length ds)"
proof -
  from assms obtain d ds' where ds: "ds = d # ds'" by (cases ds) auto
  with assms have d: "isdigit d" by simp
  have tw: "takeWhile isdigit (ds @ rest) = ds"
    using assms by (rule_tac takeWhile_digits) auto
  show ?thesis
    using d tw assms(2) isdigit_not_space [OF d] isdigit_not_sign [OF d]
    by (simp add: strtoll_def Let_def ds)
qed

lemma strtoll_minus_digits:
  assumes "\<forall>c \<in> set ds. isdigit c" and "ds \<noteq> []" and "rest = [] \<or> \<not> isdigit (hd rest)"
  shows "strtoll (CHR ''-'' # ds @ rest) = (max LLONG_MIN (- digits_value ds), Suc (length ds))"
proof -
  have tw: "takeWhile isdigit (ds @ rest) = ds"
    using assms by (rule_tac takeWhile_digits) auto
  have "\<not> isspace CHR ''-''" by (simp add: isspace_def)
  then show ?thesis
    using tw assms(2) by (simp add: strtoll_def Let_def)
qed

lemma strtoll_decimal:
  "rest = [] \<or> \<not> isdigit (hd rest) \<Longrightarrow>
   strtoll (decimal n @ rest) = (min LLONG_MAX (int n), length (decimal n))"
  using strtoll_digits [OF decimal_digits decimal_not_Nil, of rest n]
  by (simp add: digits_value_decimal)

lemma strtoll_minus_decimal:
  "rest = [] \<or> \<not> isdigit (hd rest) \<Longrightarrow>
   strtoll (CHR ''-'' # decimal n @ rest) = (max LLONG_MIN (- int n), Suc (length (decimal n)))"
  using strtoll_minus_digits [OF decimal_digits decimal_not_Nil, of rest n]
  by (simp add: digits_value_decimal)

lemma c_string_digits:
  "\<forall>c \<in> set ds. isdigit c \<Longrightarrow> c_string (ds @ rest) = ds @ c_string rest"
  by (auto simp: c_string_def takeWhile_append dest: isdigit_not_NUL)

lemma c_string_rest: "rest = [] \<or> \<not> isdigit (hd rest) \<Longrightarrow> c_string rest = [] \<or> \<not> isdigit (hd (c_string rest))"
  by (cases rest) (auto simp: c_string_def)

lemma year_of_era_le: "year_of_era (day_of_era z) \<le> 401"
proof -
  have "day_of_era z < 146097" by (simp add: day_of_era_def)
  then show ?thesis unfolding year_of_era_def by linarith
qed

lemma gmtime_r_total: "t \<le> 18446744073709 \<Longrightarrow> gmtime_r t \<noteq> None"
proof -
  assume t: "t \<le> 18446744073709"
  define z where "z = t div 86400 + 719468"
  define y where "y = year_of_era (day_of_era z) + z div 146097 * 400"
  have era: "z div 146097 \<le> 1467" using t unfolding z_def by linarith
  have "y \<le> 587201"
    unfolding y_def using era year_of_era_le [of z] by linarith
  then have "\<not> 2147485547 < y" "\<not> 2147485546 < y" by simp_all
  then show ?thesis
    by (simp add: gmtime_r_def Let_def z_def y_def INT_MAX_def)
qed

lemma format_time_total: "\<exists>s. format_time_rfc3339 usec = Inr s"
proof -
  have "unat usec < 18446744073709551616" using unsigned_less [of usec] by simp
  then have "unat usec div 1000000 \<le> 18446744073709" by linarith
  from gmtime_r_total [OF this] show ?thesis
    by (auto simp: format_time_rfc3339_def Let_def split: option.splits)
qed

lemma gmtime_r_sample:
  "gmtime_r 1509375600 =
     Some \<lparr>tm_year = 2017, tm_mon = 10, tm_mday = 30, tm_hour = 15, tm_min = 0, tm_sec = 0\<rparr>"
  unfolding gmtime_r_def Let_def day_of_era_def
  by (simp add: year_of_era_def day_of_year_def month_of_year_def day_of_month_def INT_MAX_def)

lemma decimal_2017: "decimal 2017 = ''2017''"
  by (simp add: decimal.simps char_of_eq_iff)

text \<open>The time stamp of a record written at 15:00:00.123456 UTC on 30 October 2017.\<close>

lemma format_time_rfc3339_sample:
  "format_time_rfc3339 1509375600123456 = Inr ''2017-10-30 15:00:00Z''"
proof -
  have "unat (1509375600123456 :: 64 word) div 1000000 = 1509375600" by simp
  then show ?thesis
    by (simp add: format_time_rfc3339_def gmtime_r_sample strftime_def decimal_2017
        two_digits_def char_of_eq_iff)
qed

section \<open>The translator on the current record\<close>

lemma sd_journal_next_index:
  "sd_journal_next j =
     (case next_index j of
        None \<Rightarrow> (j, Inr 0)
      | Some k \<Rightarrow> (j\<lparr>j_loc := LOCATION_DISCRETE k\<rparr>, Inr 1))"
  by (simp add: sd_journal_next_def next_index_def split: location.splits option.splits)

lemma next_index_less: "next_index j = Some k \<Longrightarrow> k < length (j_entries j)"
  by (auto simp: next_index_def split: location.splits if_splits dest: find_cursor_less)

lemma sd_journal_get_cursor_current:
  "current_record j = Some r \<Longrightarrow> sd_journal_get_cursor j = Inr (r_cursor r)"
  by (simp add: sd_journal_get_cursor_def)

lemma journal_get_string_current:
  "current_record j = Some r \<Longrightarrow>
   journal_get_string j field =
     (case map_of (r_fields r) field of None \<Rightarrow> Inl ENOENT | Some v \<Rightarrow> Inr (c_string v))"
  by (simp add: journal_get_string_def sd_journal_get_data_def strndup_whole split: option.splits)

lemma journal_get_int_current:
  "current_record j = Some r \<Longrightarrow>
   journal_get_int j field =
     (case map_of (r_fields r) field of
        None \<Rightarrow> Inl ENOENT
      | Some v \<Rightarrow> if leading_integer (c_string v) then Inr (fst (strtoll (c_string v)))
                  else Inl EINVAL)"
  using strtoll_end [of "c_string (the (map_of (r_fields r) field))"]
  by (auto simp: journal_get_int_def journal_get_string_current split: option.splits prod.splits)

text \<open>What the translator makes of the record that \<^verbatim>\<open>sd_journal_next\<close> steps to.\<close>

lemma journal_read_next_entry_index:
  assumes "next_index j0 = Some k"
  shows "journal_read_next_entry j0 =
           (j0\<lparr>j_loc := LOCATION_DISCRETE k\<rparr>,
            if map_of (r_fields (j_entries j0 ! k)) ''MESSAGE'' = None then Inl ENOENT
            else if translatable (j_entries j0 ! k) then Inr (Some (wire_entry (j_entries j0 ! k)))
            else Inl EINVAL)"
proof -
  let ?j = "j0\<lparr>j_loc := LOCATION_DISCRETE k\<rparr>" and ?rec = "j_entries j0 ! k"
  have c: "current_record ?j = Some ?rec"
    using next_index_less [OF assms] by (simp add: current_record_def)
  obtain s where s: "format_time_rfc3339 (r_realtime ?rec) = Inr s"
    using format_time_total by blast
  show ?thesis
    using s
    by (simp add: journal_read_next_entry_def sd_journal_next_index assms
        sd_journal_get_cursor_current [OF c] sd_journal_get_realtime_usec_def c
        journal_get_string_current [OF c] journal_get_int_current [OF c]
        translatable_def wire_entry_def Let_def
        split: option.splits)
qed

lemma journal_read_next_entry_end:
  "next_index j0 = None \<Longrightarrow> journal_read_next_entry j0 = (j0, Inr None)"
  by (simp add: journal_read_next_entry_def sd_journal_next_index)


section \<open>The loop of the read-batch procedure\<close>

lemma read_loop_end: "next_index j = None \<Longrightarrow> read_loop j acc n = (j, Inr (acc, n))"
  by (subst read_loop.simps) (simp add: journal_read_next_entry_end)

lemma read_loop_step:
  "next_index j = Some k \<Longrightarrow> translatable (j_entries j ! k) \<Longrightarrow>
   read_loop j acc n =
     read_loop (j\<lparr>j_loc := LOCATION_DISCRETE k\<rparr>) (acc @ [wire_entry (j_entries j ! k)]) (n + 1)"
proof -
  assume "next_index j = Some k" and "translatable (j_entries j ! k)"
  then have "journal_read_next_entry j =
      (j\<lparr>j_loc := LOCATION_DISCRETE k\<rparr>, Inr (Some (wire_entry (j_entries j ! k))))"
    by (auto simp: journal_read_next_entry_index translatable_def)
  then show ?thesis by (subst read_loop.simps) simp
qed

lemma read_loop_stop:
  "next_index j = Some k \<Longrightarrow> \<not> translatable (j_entries j ! k) \<Longrightarrow>
   \<exists>e. read_loop j acc n = (j\<lparr>j_loc := LOCATION_DISCRETE k\<rparr>, Inl e)"
  by (subst read_loop.simps) (simp add: journal_read_next_entry_index)

lemma next_index_discrete:
  "j_loc j = LOCATION_DISCRETE i \<Longrightarrow>
   next_index j = (if Suc i < length (j_entries j) then Some (Suc i) else None)"
  by (simp add: next_index_def)

text \<open>A batch over records that all translate: the loop reads to the end of the log.\<close>

lemma read_loop_good:
  assumes "j_loc j = LOCATION_DISCRETE i"
    and "\<forall>r \<in> set (drop (Suc i) (j_entries j)). translatable r"
  shows "read_loop j acc n =
           (if Suc i < length (j_entries j)
            then j\<lparr>j_loc := LOCATION_DISCRETE (length (j_entries j) - 1)\<rparr> else j,
            Inr (acc @ map wire_entry (drop (Suc i) (j_entries j)),
                 n + int (length (j_entries j) - Suc i)))"
  using assms
proof (induction "length (j_entries j) - Suc i" arbitrary: j i acc n)
  case 0
  then have "next_index j = None" by (simp add: next_index_discrete)
  with 0 show ?case by (simp add: read_loop_end)
next
  case (Suc d)
  let ?k = "Suc i" and ?rs = "j_entries j"
  from Suc.hyps(2) have k: "?k < length ?rs" by simp
  then have ni: "next_index j = Some ?k" using Suc.prems(1) by (simp add: next_index_discrete)
  have dr: "drop ?k ?rs = ?rs ! ?k # drop (Suc ?k) ?rs"
    using k by (simp add: Cons_nth_drop_Suc)
  with Suc.prems(2) have t: "translatable (?rs ! ?k)"
    and rest: "\<forall>r \<in> set (drop (Suc ?k) ?rs). translatable r" by simp_all
  let ?j' = "j\<lparr>j_loc := LOCATION_DISCRETE ?k\<rparr>"
  have d: "d = length (j_entries ?j') - Suc ?k" using Suc.hyps(2) by simp
  have "read_loop j acc n = read_loop ?j' (acc @ [wire_entry (?rs ! ?k)]) (n + 1)"
    by (rule read_loop_step [OF ni t])
  also have "\<dots> =
      (if Suc ?k < length ?rs then ?j'\<lparr>j_loc := LOCATION_DISCRETE (length ?rs - 1)\<rparr> else ?j',
       Inr ((acc @ [wire_entry (?rs ! ?k)]) @ map wire_entry (drop (Suc ?k) ?rs),
            (n + 1) + int (length ?rs - Suc ?k)))"
    using Suc.hyps(1) [OF d, of "acc @ [wire_entry (?rs ! ?k)]" "n + 1"] rest by simp
  also have "\<dots> =
      (j\<lparr>j_loc := LOCATION_DISCRETE (length ?rs - 1)\<rparr>,
       Inr (acc @ map wire_entry (drop ?k ?rs), n + int (length ?rs - ?k)))"
  proof (cases "Suc ?k < length ?rs")
    case True
    then show ?thesis by (simp add: dr)
  next
    case False
    with k have "length ?rs - 1 = ?k" by simp
    with False k show ?thesis by (simp add: dr)
  qed
  finally show ?case using k by simp
qed

lemma read_loop_from:
  assumes "next_index j = Some k" and "\<forall>r \<in> set (drop k (j_entries j)). translatable r"
  shows "read_loop j acc n =
           (j\<lparr>j_loc := LOCATION_DISCRETE (length (j_entries j) - 1)\<rparr>,
            Inr (acc @ map wire_entry (drop k (j_entries j)),
                 n + int (length (j_entries j) - k)))"
proof -
  let ?rs = "j_entries j"
  have k: "k < length ?rs" by (rule next_index_less [OF assms(1)])
  have dr: "drop k ?rs = ?rs ! k # drop (Suc k) ?rs"
    using k by (simp add: Cons_nth_drop_Suc)
  with assms(2) have t: "translatable (?rs ! k)"
    and rest: "\<forall>r \<in> set (drop (Suc k) ?rs). translatable r" by simp_all
  let ?j' = "j\<lparr>j_loc := LOCATION_DISCRETE k\<rparr>"
  have "read_loop j acc n = read_loop ?j' (acc @ [wire_entry (?rs ! k)]) (n + 1)"
    by (rule read_loop_step [OF assms(1) t])
  also have "\<dots> =
      (if Suc k < length ?rs then ?j'\<lparr>j_loc := LOCATION_DISCRETE (length ?rs - 1)\<rparr> else ?j',
       Inr ((acc @ [wire_entry (?rs ! k)]) @ map wire_entry (drop (Suc k) ?rs),
            (n + 1) + int (length ?rs - Suc k)))"
    using read_loop_good [of ?j' k "acc @ [wire_entry (?rs ! k)]" "n + 1"] rest by simp
  also have "\<dots> =
      (j\<lparr>j_loc := LOCATION_DISCRETE (length ?rs - 1)\<rparr>,
       Inr (acc @ map wire_entry (drop k ?rs), n + int (length ?rs - k)))"
  proof (cases "Suc k < length ?rs")
    case True
    then show ?thesis by (simp add: dr)
  next
    case False
    with k have "length ?rs - 1 = k" by simp
    with False k show ?thesis by (simp add: dr)
  qed
  finally show ?thesis .
qed

text \<open>A record that does not translate stops the loop with an error.\<close>

lemma read_loop_bad:
  assumes "j_loc j = LOCATION_DISCRETE i" and "i < k" and "k < length (j_entries j)"
    and "\<not> translatable (j_entries j ! k)"
  shows "\<exists>j' e. read_loop j acc n = (j', Inl e)"
  using assms
proof (induction "k - Suc i" arbitrary: j i acc n)
  case 0
  then have "Suc i = k" by simp
  with 0 have "next_index j = Some k" by (simp add: next_index_discrete)
  from read_loop_stop [OF this "0.prems"(4)] show ?case by blast
next
  case (Suc d)
  then have ni: "next_index j = Some (Suc i)" by (simp add: next_index_discrete)
  show ?case
  proof (cases "translatable (j_entries j ! Suc i)")
    case False
    from read_loop_stop [OF ni False] show ?thesis by blast
  next
    case True
    let ?j' = "j\<lparr>j_loc := LOCATION_DISCRETE (Suc i)\<rparr>"
    have "d = k - Suc (Suc i)" and "j_loc ?j' = LOCATION_DISCRETE (Suc i)" and "Suc i < k"
      and "k < length (j_entries ?j')" and "\<not> translatable (j_entries ?j' ! k)"
      using Suc.hyps(2) Suc.prems by simp_all
    from Suc.hyps(1) [OF this]
    have "\<exists>j' e. read_loop ?j' (acc @ [wire_entry (j_entries j ! Suc i)]) (n + 1) = (j', Inl e)" .
    then show ?thesis by (simp add: read_loop_step [OF ni True])
  qed
qed

text \<open>What a batch that ends without an error has built, whatever the records are.\<close>

lemma read_loop_result:
  "read_loop j acc n = (j', Inr (es, n')) \<Longrightarrow>
   \<exists>new. es = acc @ new \<and> n' = n + int (length new) \<and> (new = [] \<longrightarrow> j' = j) \<and>
     (new \<noteq> [] \<longrightarrow> sd_journal_get_cursor j' = Inr (e_cursor (last new)))"
proof (induction j acc n rule: read_loop.induct)
  case (1 j acc n)
  show ?case
  proof (cases "next_index j")
    case None
    with "1.prems" show ?thesis by (simp add: read_loop_end)
  next
    case (Some k)
    let ?j1 = "j\<lparr>j_loc := LOCATION_DISCRETE k\<rparr>" and ?e = "wire_entry (j_entries j ! k)"
    have t: "translatable (j_entries j ! k)"
      using read_loop_stop [OF Some, of acc n] "1.prems" by auto
    then have jr: "journal_read_next_entry j = (?j1, Inr (Some ?e))"
      by (simp add: journal_read_next_entry_index [OF Some] translatable_def)
    have "read_loop ?j1 (acc @ [?e]) (n + 1) = (j', Inr (es, n'))"
      using "1.prems" by (simp add: read_loop_step [OF Some t])
    from "1.IH" [OF jr [symmetric] refl refl this]
    obtain new where new: "es = (acc @ [?e]) @ new" "n' = n + 1 + int (length new)"
      "new = [] \<longrightarrow> j' = ?j1"
      "new \<noteq> [] \<longrightarrow> sd_journal_get_cursor j' = Inr (e_cursor (last new))" by blast
    have c: "sd_journal_get_cursor ?j1 = Inr (e_cursor ?e)"
      using next_index_less [OF Some]
      by (simp add: sd_journal_get_cursor_def current_record_def wire_entry_def)
    have "es = acc @ (?e # new)" "n' = n + int (length (?e # new))"
      using new by simp_all
    moreover have "sd_journal_get_cursor j' = Inr (e_cursor (last (?e # new)))"
      using new c by (cases "new = []") simp_all
    ultimately show ?thesis by blast
  qed
qed

section \<open>The read-batch procedure and the stored cursor\<close>

lemma translatable_scenario_log: "\<forall>r \<in> set scenario_log. translatable r"
  by (simp add: scenario_log_def translatable_def leading_integer_def c_string_def
      isspace_def isdigit_def)

lemma monitor_read_entries_Inl:
  "monitor_read_entries monitor = (monitor', Inl r) \<Longrightarrow> r = - VARLINK_ERROR_PANIC"
  by (auto simp: monitor_read_entries_def Let_def
      split: option.splits prod.splits sum.splits if_splits)

lemma monitor_read_entries_end:
  "journal monitor = Some j \<Longrightarrow> next_index j = None \<Longrightarrow>
   monitor_read_entries monitor = (monitor\<lparr>journal := Some j, cursor := None\<rparr>, Inr ([], 0))"
  by (simp add: monitor_read_entries_def read_loop_end)

lemma monitor_read_entries_from:
  assumes "journal monitor = Some j" and "next_index j = Some k"
    and "\<forall>r \<in> set (drop k (j_entries j)). translatable r"
  shows "monitor_read_entries monitor =
           (monitor\<lparr>journal := Some (j\<lparr>j_loc := LOCATION_DISCRETE (length (j_entries j) - 1)\<rparr>),
                    cursor := Some (r_cursor (last (j_entries j)))\<rparr>,
            Inr (map wire_entry (drop k (j_entries j)), int (length (j_entries j) - k)))"
proof -
  have k: "k < length (j_entries j)" by (rule next_index_less [OF assms(2)])
  then have "j_entries j \<noteq> []" by auto
  then have "sd_journal_get_cursor (j\<lparr>j_loc := LOCATION_DISCRETE (length (j_entries j) - 1)\<rparr>)
      = Inr (r_cursor (last (j_entries j)))"
    by (simp add: sd_journal_get_cursor_def current_record_def last_conv_nth)
  then show ?thesis
    using k by (simp add: monitor_read_entries_def read_loop_from [OF assms(2,3)] assms(1))
qed

lemma monitor_read_entries_bad:
  assumes "journal monitor = Some j" and "j_loc j = LOCATION_DISCRETE i" and "i < k"
    and "k < length (j_entries j)" and "\<not> translatable (j_entries j ! k)"
  shows "snd (monitor_read_entries monitor) = Inl (- VARLINK_ERROR_PANIC)"
  using read_loop_bad [OF assms(2-5), of "[]" 0]
  by (auto simp: monitor_read_entries_def assms(1))

text \<open>
  C7. After every read-batch that reads at least one record (it returns a positive count),
  the cursor stored in the Monitor is the resume token of the last entry of the batch.
\<close>

theorem cursor_after_batch:
  assumes "monitor_read_entries monitor = (monitor', Inr (entries, n_read))" and "0 < n_read"
  shows "entries \<noteq> [] \<and> n_read = int (length entries) \<and>
         cursor monitor' = Some (e_cursor (last entries))"
proof -
  from assms(1) obtain j where j: "journal monitor = Some j"
    by (cases "journal monitor") (simp_all add: monitor_read_entries_def)
  from assms(1) j obtain j' where loop: "read_loop j [] 0 = (j', Inr (entries, n_read))"
    by (auto simp: monitor_read_entries_def Let_def split: prod.splits sum.splits if_splits)
  from read_loop_result [OF loop] assms(2)
  have e: "entries \<noteq> []" "n_read = int (length entries)"
    and c: "sd_journal_get_cursor j' = Inr (e_cursor (last entries))" by auto
  from assms j loop c have "cursor monitor' = Some (e_cursor (last entries))"
    by (auto simp: monitor_read_entries_def Let_def)
  with e show ?thesis by simp
qed

theorem cursor_after_batch_witness:
  "monitor_read_entries (monitor_at scenario_log (LOCATION_DISCRETE 0) (Some ''c0'')) =
     (monitor_at scenario_log (LOCATION_DISCRETE 2) (Some ''c2''),
      Inr (map wire_entry (drop 1 scenario_log), 2))
   \<and> map wire_entry (drop 1 scenario_log) \<noteq> []
   \<and> (2::int) = int (length (map wire_entry (drop 1 scenario_log)))
   \<and> cursor (monitor_at scenario_log (LOCATION_DISCRETE 2) (Some ''c2''))
       = Some (e_cursor (last (map wire_entry (drop 1 scenario_log))))"
proof -
  have t: "\<forall>r \<in> set (drop 1 (j_entries (journal_at scenario_log (LOCATION_DISCRETE 0)))). translatable r"
    using translatable_scenario_log by (simp add: journal_at_def scenario_log_def)
  have h: "monitor_read_entries (monitor_at scenario_log (LOCATION_DISCRETE 0) (Some ''c0'')) =
     (monitor_at scenario_log (LOCATION_DISCRETE 2) (Some ''c2''),
      Inr (map wire_entry (drop 1 scenario_log), 2))"
    using monitor_read_entries_from
      [of "monitor_at scenario_log (LOCATION_DISCRETE 0) (Some ''c0'')"
          "journal_at scenario_log (LOCATION_DISCRETE 0)" 1, OF _ _ t]
    by (simp add: monitor_at_def journal_at_def next_index_def scenario_log_def)
  from cursor_after_batch [OF h] h show ?thesis by simp
qed

text \<open>
  A read-batch that reads no record leaves the Monitor without a stored cursor, whatever it
  stored before.
\<close>

lemma monitor_read_entries_empty:
  assumes "monitor_read_entries monitor = (monitor', Inr (entries, n_read))" and "n_read = 0"
  shows "entries = [] \<and> cursor monitor' = None"
proof -
  from assms(1) obtain j where j: "journal monitor = Some j"
    by (cases "journal monitor") (simp_all add: monitor_read_entries_def)
  from assms(1) j obtain j' where loop: "read_loop j [] 0 = (j', Inr (entries, n_read))"
    by (auto simp: monitor_read_entries_def Let_def split: prod.splits sum.splits if_splits)
  from read_loop_result [OF loop] assms(2) have "entries = []" by auto
  moreover from assms j loop have "cursor monitor' = None"
    by (auto simp: monitor_read_entries_def Let_def)
  ultimately show ?thesis by simp
qed

section \<open>The translation of one record\<close>

lemma sd_journal_next_Some:
  assumes "sd_journal_next j0 = (j, Inr r)" and "r \<noteq> 0"
  shows "\<exists>k. next_index j0 = Some k \<and> j = j0\<lparr>j_loc := LOCATION_DISCRETE k\<rparr>
           \<and> current_record j = Some (j_entries j0 ! k)"
proof (cases "next_index j0")
  case None
  with assms show ?thesis by (simp add: sd_journal_next_index)
next
  case (Some k)
  with assms next_index_less [OF Some] show ?thesis
    by (auto simp: sd_journal_next_index current_record_def)
qed

lemma journal_read_next_entry_Some:
  assumes "journal_read_next_entry j0 = (j, Inr (Some e))"
  shows "\<exists>k. next_index j0 = Some k \<and> j = j0\<lparr>j_loc := LOCATION_DISCRETE k\<rparr>
           \<and> current_record j = Some (j_entries j0 ! k) \<and> translatable (j_entries j0 ! k)
           \<and> e = wire_entry (j_entries j0 ! k)"
proof (cases "next_index j0")
  case None
  with assms show ?thesis by (simp add: journal_read_next_entry_end)
next
  case (Some k)
  with assms next_index_less [OF Some] show ?thesis
    by (auto simp: journal_read_next_entry_index current_record_def split: if_splits)
qed

lemma priority_of_decimal:
  assumes "map_of (r_fields rec) ''PRIORITY'' = Some (decimal n @ rest)"
    and "rest = [] \<or> \<not> isdigit (hd rest)"
  shows "leading_integer (c_string (decimal n @ rest))"
    and "e_priority (wire_entry rec) = (if n \<le> 7 then Some (priorities ! n) else None)"
proof -
  have cs: "c_string (decimal n @ rest) = decimal n @ c_string rest"
    by (rule c_string_digits [OF decimal_digits])
  have st: "strtoll (c_string (decimal n @ rest)) = (min LLONG_MAX (int n), length (decimal n))"
    unfolding cs by (rule strtoll_decimal [OF c_string_rest [OF assms(2)]])
  have "snd (strtoll (c_string (decimal n @ rest))) \<noteq> 0"
    using decimal_not_Nil [of n] by (simp add: st)
  then show "leading_integer (c_string (decimal n @ rest))"
    by (simp add: strtoll_end)
  have "0 \<le> min LLONG_MAX (int n)" by (simp add: LLONG_MAX_def)
  moreover have "min LLONG_MAX (int n) \<le> 7 \<longleftrightarrow> n \<le> 7" by (auto simp: LLONG_MAX_def)
  moreover have "n \<le> 7 \<Longrightarrow> nat (min LLONG_MAX (int n)) = n" by (simp add: LLONG_MAX_def)
  ultimately show "e_priority (wire_entry rec) = (if n \<le> 7 then Some (priorities ! n) else None)"
    by (simp add: wire_entry_def assms(1) st Let_def)
qed

lemma priority_of_minus_decimal:
  assumes "map_of (r_fields rec) ''PRIORITY'' = Some (CHR ''-'' # decimal n)" and "0 < n"
  shows "leading_integer (c_string (CHR ''-'' # decimal n))"
    and "e_priority (wire_entry rec) = None"
proof -
  have "c_string (decimal n @ []) = decimal n @ c_string []"
    by (rule c_string_digits [OF decimal_digits])
  then have cs: "c_string (CHR ''-'' # decimal n) = CHR ''-'' # decimal n"
    by (simp add: c_string_def)
  have st: "strtoll (c_string (CHR ''-'' # decimal n)) =
      (max LLONG_MIN (- int n), Suc (length (decimal n)))"
    unfolding cs using strtoll_minus_decimal [of "[]" n] by simp
  then have "snd (strtoll (c_string (CHR ''-'' # decimal n))) \<noteq> 0" by simp
  then show "leading_integer (c_string (CHR ''-'' # decimal n))"
    by (simp add: strtoll_end)
  have "\<not> 0 \<le> max LLONG_MIN (- int n)"
    using assms(2) by (simp add: LLONG_MIN_def max_def)
  then show "e_priority (wire_entry rec) = None"
    by (simp add: wire_entry_def assms(1) st Let_def)
qed

text \<open>
  C8. For the record that the translator reads, with a message: a priority that is the
  numeral of a level from 0 to 7 gives the severity name at that place of the table
  debug, information, notice, warning, error, alert, critical, emergency, whose names are
  all different; a record without a priority, or with the numeral of any other number,
  gives an entry without a priority, and the translation does not fail.
\<close>

theorem severity_mapping:
  assumes "sd_journal_next j0 = (j, Inr 1)" and "current_record j = Some rec"
    and "map_of (r_fields rec) ''MESSAGE'' = Some m"
  shows "priorities =
           [''debug'', ''information'', ''notice'', ''warning'',
            ''error'', ''alert'', ''critical'', ''emergency'']
         \<and> distinct priorities
         \<and> (map_of (r_fields rec) ''PRIORITY'' = None \<longrightarrow>
              (\<exists>e. journal_read_next_entry j0 = (j, Inr (Some e)) \<and> e_priority e = None))
         \<and> (\<forall>n. map_of (r_fields rec) ''PRIORITY'' = Some (decimal n) \<longrightarrow>
              (\<exists>e. journal_read_next_entry j0 = (j, Inr (Some e)) \<and>
                   e_priority e = (if n \<le> 7 then Some (priorities ! n) else None)))
         \<and> (\<forall>n. 0 < n \<longrightarrow> map_of (r_fields rec) ''PRIORITY'' = Some (CHR ''-'' # decimal n) \<longrightarrow>
              (\<exists>e. journal_read_next_entry j0 = (j, Inr (Some e)) \<and> e_priority e = None))"
proof -
  from sd_journal_next_Some [OF assms(1)] assms(2) obtain k where
    k: "next_index j0 = Some k" and j: "j = j0\<lparr>j_loc := LOCATION_DISCRETE k\<rparr>"
    and rec: "rec = j_entries j0 ! k" by auto
  have run: "journal_read_next_entry j0 = (j, Inr (Some (wire_entry rec)))" if "translatable rec"
    using that assms(3) by (simp add: journal_read_next_entry_index [OF k] j rec)
  have absent: "\<exists>e. journal_read_next_entry j0 = (j, Inr (Some e)) \<and> e_priority e = None"
    if "map_of (r_fields rec) ''PRIORITY'' = None"
  proof -
    from that assms(3) have "translatable rec" by (simp add: translatable_def)
    moreover from that have "e_priority (wire_entry rec) = None" by (simp add: wire_entry_def)
    ultimately show ?thesis using run by blast
  qed
  have level: "\<exists>e. journal_read_next_entry j0 = (j, Inr (Some e)) \<and>
                   e_priority e = (if n \<le> 7 then Some (priorities ! n) else None)"
    if "map_of (r_fields rec) ''PRIORITY'' = Some (decimal n)" for n
  proof -
    from that have p: "map_of (r_fields rec) ''PRIORITY'' = Some (decimal n @ [])" by simp
    from priority_of_decimal(1) [OF p] that assms(3) have "translatable rec"
      by (simp add: translatable_def)
    with run priority_of_decimal(2) [OF p] show ?thesis by blast
  qed
  have negative: "\<exists>e. journal_read_next_entry j0 = (j, Inr (Some e)) \<and> e_priority e = None"
    if "0 < n" and "map_of (r_fields rec) ''PRIORITY'' = Some (CHR ''-'' # decimal n)" for n
  proof -
    from priority_of_minus_decimal(1) [OF that(2,1)] that assms(3) have "translatable rec"
      by (simp add: translatable_def)
    with run priority_of_minus_decimal(2) [OF that(2,1)] show ?thesis by blast
  qed
  have "priorities =
           [''debug'', ''information'', ''notice'', ''warning'',
            ''error'', ''alert'', ''critical'', ''emergency'']"
    by (simp add: priorities_def)
  moreover have "distinct priorities" by (simp add: priorities_def)
  ultimately show ?thesis using absent level negative by blast
qed

lemma decimal_3: "decimal 3 = ''3''"
  by (subst decimal.simps) (simp add: char_of_eq_iff)

theorem severity_mapping_witness:
  "(\<exists>e. journal_read_next_entry (journal_at scenario_log (LOCATION_DISCRETE 0))
          = (journal_at scenario_log (LOCATION_DISCRETE 1), Inr (Some e))
        \<and> e_priority e = Some ''warning'')
   \<and> (\<exists>e. journal_read_next_entry (journal_at scenario_log (LOCATION_DISCRETE 1))
          = (journal_at scenario_log (LOCATION_DISCRETE 2), Inr (Some e))
        \<and> e_priority e = None)"
proof -
  have n1: "sd_journal_next (journal_at scenario_log (LOCATION_DISCRETE 0))
      = (journal_at scenario_log (LOCATION_DISCRETE 1), Inr 1)"
    by (simp add: sd_journal_next_def journal_at_def scenario_log_def)
  have c1: "current_record (journal_at scenario_log (LOCATION_DISCRETE 1)) = Some (scenario_log ! 1)"
    by (simp add: current_record_def journal_at_def scenario_log_def)
  have m1: "map_of (r_fields (scenario_log ! 1)) ''MESSAGE'' = Some ''disk warn''"
    by (simp add: scenario_log_def)
  have p1: "map_of (r_fields (scenario_log ! 1)) ''PRIORITY'' = Some (decimal 3)"
    by (simp add: scenario_log_def decimal_3)
  have n2: "sd_journal_next (journal_at scenario_log (LOCATION_DISCRETE 1))
      = (journal_at scenario_log (LOCATION_DISCRETE 2), Inr 1)"
    by (simp add: sd_journal_next_def journal_at_def scenario_log_def)
  have c2: "current_record (journal_at scenario_log (LOCATION_DISCRETE 2)) = Some (scenario_log ! 2)"
    by (simp add: current_record_def journal_at_def scenario_log_def)
  have m2: "map_of (r_fields (scenario_log ! 2)) ''MESSAGE'' = Some ''heartbeat''"
    by (simp add: scenario_log_def)
  have p2: "map_of (r_fields (scenario_log ! 2)) ''PRIORITY'' = None"
    by (simp add: scenario_log_def)
  note level = severity_mapping [OF n1 c1 m1, THEN conjunct2, THEN conjunct2, THEN conjunct2,
      THEN conjunct1, rule_format, OF p1]
  note absent = severity_mapping [OF n2 c2 m2, THEN conjunct2, THEN conjunct2, THEN conjunct1,
      rule_format, OF p2]
  from level have "\<exists>e. journal_read_next_entry (journal_at scenario_log (LOCATION_DISCRETE 0))
          = (journal_at scenario_log (LOCATION_DISCRETE 1), Inr (Some e))
        \<and> e_priority e = Some ''warning''"
    by (simp add: priorities_def)
  with absent show ?thesis by simp
qed

lemma read_scenario_log:
  assumes "next_index (journal_at scenario_log loc) = Some k"
  shows "journal_read_next_entry (journal_at scenario_log loc) =
           (journal_at scenario_log (LOCATION_DISCRETE k), Inr (Some (wire_entry (scenario_log ! k))))"
proof -
  from next_index_less [OF assms] have "k < length scenario_log" by (simp add: journal_at_def)
  with translatable_scenario_log have t: "translatable (scenario_log ! k)" by simp
  then have "map_of (r_fields (scenario_log ! k)) ''MESSAGE'' \<noteq> None"
    by (simp add: translatable_def)
  with t journal_read_next_entry_index [OF assms] show ?thesis
    by (simp add: journal_at_def)
qed

text \<open>
  C9. For the record that the translator reads, with a message and a priority that is
  absent or starts with an integer, the translator returns an entry, and the process field
  of that entry is the declared identifier (\<^verbatim>\<open>SYSLOG_IDENTIFIER\<close>) when the record has
  one, else the command name (\<^verbatim>\<open>_COMM\<close>) when it has that, and is left out when it has
  neither. The value is taken as a C string.
\<close>

theorem process_name_resolution:
  assumes "sd_journal_next j0 = (j, Inr 1)" and "current_record j = Some rec"
    and "map_of (r_fields rec) ''MESSAGE'' = Some m"
    and "case map_of (r_fields rec) ''PRIORITY'' of
           None \<Rightarrow> True | Some v \<Rightarrow> leading_integer (c_string v)"
  shows "\<exists>e. journal_read_next_entry j0 = (j, Inr (Some e)) \<and>
           e_process e =
             (case map_of (r_fields rec) ''SYSLOG_IDENTIFIER'' of
                Some declared \<Rightarrow> Some (c_string declared)
              | None \<Rightarrow>
                  (case map_of (r_fields rec) ''_COMM'' of
                     Some command \<Rightarrow> Some (c_string command)
                   | None \<Rightarrow> None))"
proof -
  from sd_journal_next_Some [OF assms(1)] assms(2) obtain k where
    k: "next_index j0 = Some k" and j: "j = j0\<lparr>j_loc := LOCATION_DISCRETE k\<rparr>"
    and rec: "rec = j_entries j0 ! k" by auto
  have "translatable rec" using assms(3,4) by (simp add: translatable_def)
  then have run: "journal_read_next_entry j0 = (j, Inr (Some (wire_entry rec)))"
    using assms(3) by (simp add: journal_read_next_entry_index [OF k] j rec)
  have "e_process (wire_entry rec) =
             (case map_of (r_fields rec) ''SYSLOG_IDENTIFIER'' of
                Some declared \<Rightarrow> Some (c_string declared)
              | None \<Rightarrow>
                  (case map_of (r_fields rec) ''_COMM'' of
                     Some command \<Rightarrow> Some (c_string command)
                   | None \<Rightarrow> None))"
    by (simp add: wire_entry_def split: option.splits)
  with run show ?thesis by blast
qed

theorem process_name_resolution_witness:
  "(\<exists>e. journal_read_next_entry (journal_at scenario_log LOCATION_HEAD)
          = (journal_at scenario_log (LOCATION_DISCRETE 0), Inr (Some e))
        \<and> e_process e = Some ''init'')
   \<and> (\<exists>e. journal_read_next_entry (journal_at scenario_log (LOCATION_DISCRETE 0))
          = (journal_at scenario_log (LOCATION_DISCRETE 1), Inr (Some e))
        \<and> e_process e = Some ''kernel'')
   \<and> (\<exists>e. journal_read_next_entry (journal_at scenario_log (LOCATION_DISCRETE 1))
          = (journal_at scenario_log (LOCATION_DISCRETE 2), Inr (Some e))
        \<and> e_process e = None)"
proof -
  have n0: "sd_journal_next (journal_at scenario_log LOCATION_HEAD)
      = (journal_at scenario_log (LOCATION_DISCRETE 0), Inr 1)"
    and n1: "sd_journal_next (journal_at scenario_log (LOCATION_DISCRETE 0))
      = (journal_at scenario_log (LOCATION_DISCRETE 1), Inr 1)"
    and n2: "sd_journal_next (journal_at scenario_log (LOCATION_DISCRETE 1))
      = (journal_at scenario_log (LOCATION_DISCRETE 2), Inr 1)"
    by (simp_all add: sd_journal_next_def journal_at_def scenario_log_def)
  have c: "current_record (journal_at scenario_log (LOCATION_DISCRETE 0)) = Some (scenario_log ! 0)"
    "current_record (journal_at scenario_log (LOCATION_DISCRETE 1)) = Some (scenario_log ! 1)"
    "current_record (journal_at scenario_log (LOCATION_DISCRETE 2)) = Some (scenario_log ! 2)"
    by (simp_all add: current_record_def journal_at_def scenario_log_def)
  have m: "map_of (r_fields (scenario_log ! 0)) ''MESSAGE'' = Some ''boot ok''"
    "map_of (r_fields (scenario_log ! 1)) ''MESSAGE'' = Some ''disk warn''"
    "map_of (r_fields (scenario_log ! 2)) ''MESSAGE'' = Some ''heartbeat''"
    by (simp_all add: scenario_log_def)
  have p: "case map_of (r_fields (scenario_log ! 0)) ''PRIORITY'' of
             None \<Rightarrow> True | Some v \<Rightarrow> leading_integer (c_string v)"
    "case map_of (r_fields (scenario_log ! 1)) ''PRIORITY'' of
             None \<Rightarrow> True | Some v \<Rightarrow> leading_integer (c_string v)"
    "case map_of (r_fields (scenario_log ! 2)) ''PRIORITY'' of
             None \<Rightarrow> True | Some v \<Rightarrow> leading_integer (c_string v)"
    by (simp_all add: scenario_log_def leading_integer_def c_string_def isspace_def isdigit_def)
  from process_name_resolution [OF n0 c(1) m(1) p(1)]
  have "\<exists>e. journal_read_next_entry (journal_at scenario_log LOCATION_HEAD)
          = (journal_at scenario_log (LOCATION_DISCRETE 0), Inr (Some e))
        \<and> e_process e = Some ''init''"
    by (simp add: scenario_log_def c_string_def)
  moreover from process_name_resolution [OF n1 c(2) m(2) p(2)]
  have "\<exists>e. journal_read_next_entry (journal_at scenario_log (LOCATION_DISCRETE 0))
          = (journal_at scenario_log (LOCATION_DISCRETE 1), Inr (Some e))
        \<and> e_process e = Some ''kernel''"
    by (simp add: scenario_log_def c_string_def)
  moreover from process_name_resolution [OF n2 c(3) m(3) p(3)]
  have "\<exists>e. journal_read_next_entry (journal_at scenario_log (LOCATION_DISCRETE 1))
          = (journal_at scenario_log (LOCATION_DISCRETE 2), Inr (Some e))
        \<and> e_process e = None"
    by (simp add: scenario_log_def)
  ultimately show ?thesis by simp
qed

text \<open>
  C10. The text of a priority field is read as \<^verbatim>\<open>strtoll\<close> reads it: a numeral followed by
  anything that is not a digit counts as the number (\<open>3extra\<close> is level 3, warning). The
  translation of a record with a message and a priority succeeds exactly when the text has
  a leading integer; when it has none the translator returns \<^verbatim>\<open>-EINVAL\<close>, the loop of the
  batch stops with it, and the batch returns Panic.
\<close>

theorem priority_text_parsing:
  assumes "sd_journal_next j0 = (j, Inr 1)" and "current_record j = Some rec"
    and "map_of (r_fields rec) ''MESSAGE'' = Some m"
    and "map_of (r_fields rec) ''PRIORITY'' = Some v"
  shows "(\<forall>n rest. v = decimal n @ rest \<longrightarrow> (rest = [] \<or> \<not> isdigit (hd rest)) \<longrightarrow>
            (\<exists>e. journal_read_next_entry j0 = (j, Inr (Some e)) \<and>
                 e_priority e = (if n \<le> 7 then Some (priorities ! n) else None)))
         \<and> ((\<exists>e. journal_read_next_entry j0 = (j, Inr (Some e))) \<longleftrightarrow> leading_integer (c_string v))
         \<and> (\<not> leading_integer (c_string v) \<longrightarrow>
              journal_read_next_entry j0 = (j, Inl EINVAL) \<and>
              (\<forall>entries n_read. read_loop j0 entries n_read = (j, Inl EINVAL)) \<and>
              (\<forall>monitor. journal monitor = Some j0 \<longrightarrow>
                 snd (monitor_read_entries monitor) = Inl (- VARLINK_ERROR_PANIC)))"
proof -
  from sd_journal_next_Some [OF assms(1)] assms(2) obtain k where
    k: "next_index j0 = Some k" and j: "j = j0\<lparr>j_loc := LOCATION_DISCRETE k\<rparr>"
    and rec: "rec = j_entries j0 ! k" by auto
  have tr: "translatable rec \<longleftrightarrow> leading_integer (c_string v)"
    using assms(3,4) by (simp add: translatable_def)
  have run: "journal_read_next_entry j0 =
      (j, if leading_integer (c_string v) then Inr (Some (wire_entry rec)) else Inl EINVAL)"
    using assms(3) tr by (simp add: journal_read_next_entry_index [OF k] j rec)
  have numeral: "\<exists>e. journal_read_next_entry j0 = (j, Inr (Some e)) \<and>
                 e_priority e = (if n \<le> 7 then Some (priorities ! n) else None)"
    if "v = decimal n @ rest" and "rest = [] \<or> \<not> isdigit (hd rest)" for n rest
  proof -
    from that(1) assms(4) have p: "map_of (r_fields rec) ''PRIORITY'' = Some (decimal n @ rest)"
      by simp
    from priority_of_decimal [OF p that(2)] run that(1) show ?thesis by simp
  qed
  have iff: "(\<exists>e. journal_read_next_entry j0 = (j, Inr (Some e))) \<longleftrightarrow> leading_integer (c_string v)"
    by (simp add: run)
  have stop: "journal_read_next_entry j0 = (j, Inl EINVAL) \<and>
              (\<forall>entries n_read. read_loop j0 entries n_read = (j, Inl EINVAL)) \<and>
              (\<forall>monitor. journal monitor = Some j0 \<longrightarrow>
                 snd (monitor_read_entries monitor) = Inl (- VARLINK_ERROR_PANIC))"
    if "\<not> leading_integer (c_string v)"
  proof -
    from that run have r: "journal_read_next_entry j0 = (j, Inl EINVAL)" by simp
    then have l: "read_loop j0 entries n_read = (j, Inl EINVAL)" for entries n_read
      by (subst read_loop.simps) simp
    then have "snd (monitor_read_entries monitor) = Inl (- VARLINK_ERROR_PANIC)"
      if "journal monitor = Some j0" for monitor
      using that by (simp add: monitor_read_entries_def)
    with r l show ?thesis by blast
  qed
  from numeral iff stop show ?thesis by blast
qed

theorem priority_text_parsing_witness:
  "(\<exists>e. journal_read_next_entry (journal_at (priority_log ''3extra'') LOCATION_HEAD)
          = (journal_at (priority_log ''3extra'') (LOCATION_DISCRETE 0), Inr (Some e))
        \<and> e_priority e = Some ''warning'')
   \<and> \<not> leading_integer (c_string ''high'')
   \<and> journal_read_next_entry (journal_at (priority_log ''high'') LOCATION_HEAD)
       = (journal_at (priority_log ''high'') (LOCATION_DISCRETE 0), Inl EINVAL)
   \<and> snd (monitor_read_entries (monitor_at (priority_log ''high'') LOCATION_HEAD None))
       = Inl (- VARLINK_ERROR_PANIC)"
proof -
  have n: "sd_journal_next (journal_at (priority_log v) LOCATION_HEAD)
      = (journal_at (priority_log v) (LOCATION_DISCRETE 0), Inr 1)" for v
    by (simp add: sd_journal_next_def journal_at_def priority_log_def)
  have c: "current_record (journal_at (priority_log v) (LOCATION_DISCRETE 0))
      = Some (priority_log v ! 0)" for v
    by (simp add: current_record_def journal_at_def priority_log_def)
  have m: "map_of (r_fields (priority_log v ! 0)) ''MESSAGE'' = Some ''text''" for v
    by (simp add: priority_log_def)
  have p: "map_of (r_fields (priority_log v ! 0)) ''PRIORITY'' = Some v" for v
    by (simp add: priority_log_def)
  have d: "''3extra'' = decimal 3 @ ''extra''" by (simp add: decimal_3)
  have x: "''extra'' = [] \<or> \<not> isdigit (hd ''extra'')" by (simp add: isdigit_def)
  have high: "\<not> leading_integer (c_string ''high'')"
    by (simp add: leading_integer_def c_string_def isspace_def isdigit_def)
  note numeral = priority_text_parsing [OF n c m p, of "''3extra''", THEN conjunct1, rule_format,
      OF d x]
  note stop = priority_text_parsing [OF n c m p, of "''high''", THEN conjunct2, THEN conjunct2,
      rule_format, OF high]
  from numeral have "\<exists>e. journal_read_next_entry (journal_at (priority_log ''3extra'') LOCATION_HEAD)
          = (journal_at (priority_log ''3extra'') (LOCATION_DISCRETE 0), Inr (Some e))
        \<and> e_priority e = Some ''warning''"
    by (simp add: priorities_def)
  moreover from stop
  have "snd (monitor_read_entries (monitor_at (priority_log ''high'') LOCATION_HEAD None))
       = Inl (- VARLINK_ERROR_PANIC)"
    by (simp add: monitor_at_def)
  ultimately show ?thesis using high stop by simp
qed

section \<open>The handler\<close>

lemma unat_initial_lines_plus_1:
  fixes k :: "64 word"
  assumes "\<not> k <s 0"
  shows "unat (k + 1) = Suc (unat k)"
proof -
  have "1 + k \<noteq> 0"
  proof
    assume "1 + k = 0"
    then have "k = - 1" by (simp add: add_eq_0_iff)
    with assms show False by (simp add: word_sless_alt)
  qed
  from unatSuc [OF this] show ?thesis by (simp add: add.commute)
qed

lemma sd_journal_previous_discrete:
  "sd_journal_previous (j\<lparr>j_loc := LOCATION_DISCRETE i\<rparr>) =
     (if 0 < i \<and> i \<le> length (j_entries j) then (j\<lparr>j_loc := LOCATION_DISCRETE (i - 1)\<rparr>, Inr 1)
      else (j\<lparr>j_loc := LOCATION_DISCRETE i\<rparr>, Inr 0))"
  by (simp add: sd_journal_previous_def)

lemma previous_steps_discrete:
  "i < length (j_entries j) \<Longrightarrow>
   previous_steps n (j\<lparr>j_loc := LOCATION_DISCRETE i\<rparr>) c =
     (j\<lparr>j_loc := LOCATION_DISCRETE (i - n)\<rparr>, Inr (c + min n i))"
proof (induction n arbitrary: i c)
  case 0
  then show ?case by simp
next
  case (Suc n)
  show ?case
  proof (cases "i = 0")
    case True
    then show ?thesis by (simp add: sd_journal_previous_discrete)
  next
    case False
    with Suc.prems have "i - 1 < length (j_entries j)" by simp
    from Suc.IH [OF this, of "Suc c"] False Suc.prems show ?thesis
      by (simp add: sd_journal_previous_discrete)
  qed
qed

text \<open>Where the handler's skip from the tail of the log leaves the read position.\<close>

lemma previous_skip_from_tail:
  assumes "j_loc j = LOCATION_TAIL" and "k < 2147483647"
  shows "sd_journal_previous_skip j (Suc k) =
           (if j_entries j = [] then (j, Inr 0)
            else (j\<lparr>j_loc := LOCATION_DISCRETE (length (j_entries j) - 1 - k)\<rparr>,
                  Inr (Suc (min k (length (j_entries j) - 1)))))"
proof (cases "j_entries j = []")
  case True
  with assms show ?thesis
    by (simp add: sd_journal_previous_skip_def sd_journal_previous_def INT_MAX_def)
next
  case False
  then have "length (j_entries j) - 1 < length (j_entries j)" by (cases "j_entries j") simp_all
  from previous_steps_discrete [OF this, of k 1] False assms show ?thesis
    by (simp add: sd_journal_previous_skip_def sd_journal_previous_def INT_MAX_def)
qed

lemma monitor_new_opened:
  assumes "env_journal_open ev = Inr (fd, records)" and "env_epoll_add ev = None"
  shows "monitor_new ev w c efd =
           (w\<lparr>journals := insert fd (journals w), epoll := (epoll w)(fd \<mapsto> TAG_MONITOR c)\<rparr>,
            Inr \<lparr>call = c,
                 journal = Some \<lparr>j_fd = fd, j_entries = records, j_loc = LOCATION_TAIL\<rparr>,
                 cursor = None, epoll_fd = efd\<rparr>)"
  using assms
  by (simp add: monitor_new_def sd_journal_open_def epoll_add_def sd_journal_seek_tail_def
      sd_journal_get_fd_def)

lemma monitor_new_failed:
  assumes "monitor_new ev w c efd = (w1, Inl e)"
    and "\<forall>fd records. env_journal_open ev = Inr (fd, records) \<longrightarrow> epoll w fd = None \<and> fd \<notin> journals w"
  shows "w1 = w"
  using assms
  by (auto simp: monitor_new_def sd_journal_open_def epoll_add_def sd_journal_seek_tail_def
      sd_journal_get_fd_def monitor_free_def epoll_del_def sd_journal_close_def Let_def
      fun_upd_idem
      split: sum.splits option.splits prod.splits)

lemma monitor_free_fresh:
  assumes "journal monitor = Some j" and "epoll w (j_fd j) = None" and "j_fd j \<notin> journals w"
  shows "monitor_free monitor
           (w\<lparr>journals := insert (j_fd j) (journals w), epoll := (epoll w)(j_fd j \<mapsto> t),
              replies := rs\<rparr>) = w\<lparr>replies := rs\<rparr>"
  using assms
  by (simp add: monitor_free_def epoll_del_def sd_journal_close_def sd_journal_get_fd_def
      fun_upd_idem)


text \<open>
  The handler on a log that opens and whose records all translate, for a count that is
  not negative: what it replies, what it returns and what it leaves behind.
\<close>

lemma handler_run:
  assumes opened: "env_journal_open ev = Inr (fd, records)" "env_epoll_add ev = None"
    and fresh: "epoll w fd = None" "fd \<notin> journals w"
    and lines: "varlink_object_get_int parameters ''initial_lines'' 10 = initial_lines"
      "\<not> initial_lines <s 0"
    and range: "unat initial_lines < 2147483647"
    and tr: "\<forall>r \<in> set records. translatable r"
  shows "com_redhat_logging_monitor ev w c parameters flags efd =
     (let first = Suc (length records - 1 - unat initial_lines);
          entries = map wire_entry (drop first records);
          more = (flags AND VARLINK_CALL_MORE \<noteq> 0);
          rs = replies w @ [(c, Reply entries more)];
          monitor' =
            \<lparr>call = c,
             journal = Some \<lparr>j_fd = fd, j_entries = records,
                             j_loc = (if records = [] then LOCATION_TAIL
                                      else LOCATION_DISCRETE (length records - 1))\<rparr>,
             cursor = (if first < length records then Some (r_cursor (last records)) else None),
             epoll_fd = efd\<rparr>
      in if env_reply ev < 0 then (w\<lparr>replies := rs\<rparr>, env_reply ev, None)
         else if more
         then (w\<lparr>journals := insert fd (journals w), epoll := (epoll w)(fd \<mapsto> TAG_MONITOR c),
                 replies := rs\<rparr>, 0, Some monitor')
         else (w\<lparr>replies := rs\<rparr>, 0, None))"
proof -
  let ?k = "unat initial_lines" and ?m = "length records"
  let ?first = "Suc (?m - 1 - ?k)"
  let ?j0 = "\<lparr>j_fd = fd, j_entries = records, j_loc = LOCATION_TAIL\<rparr>"
  let ?w1 = "w\<lparr>journals := insert fd (journals w), epoll := (epoll w)(fd \<mapsto> TAG_MONITOR c)\<rparr>"
  let ?mon = "\<lparr>call = c, journal = Some ?j0, cursor = None, epoll_fd = efd\<rparr>"
  have new: "monitor_new ev w c efd = (?w1, Inr ?mon)"
    by (rule monitor_new_opened [OF opened])
  have skip_arg: "unat (initial_lines + 1) = Suc ?k"
    by (rule unat_initial_lines_plus_1 [OF lines(2)])
  define j1 where "j1 = (if records = [] then ?j0 else ?j0\<lparr>j_loc := LOCATION_DISCRETE (?m - 1 - ?k)\<rparr>)"
  have skip: "\<exists>n. sd_journal_previous_skip ?j0 (Suc ?k) = (j1, Inr n)"
    using previous_skip_from_tail [of ?j0 ?k, OF _ range] by (simp add: j1_def)
  let ?entries = "map wire_entry (drop ?first records)"
  let ?j2 = "\<lparr>j_fd = fd, j_entries = records,
              j_loc = (if records = [] then LOCATION_TAIL else LOCATION_DISCRETE (?m - 1))\<rparr>"
  let ?mon' = "\<lparr>call = c, journal = Some ?j2,
               cursor = (if ?first < ?m then Some (r_cursor (last records)) else None),
               epoll_fd = efd\<rparr>"
  let ?mon1 = "\<lparr>call = c, journal = Some j1, cursor = None, epoll_fd = efd\<rparr>"
  have read: "\<exists>n. monitor_read_entries ?mon1 = (?mon', Inr (?entries, n))"
  proof (cases "?first < ?m")
    case True
    then have ne: "records \<noteq> []" by auto
    with True have ni: "next_index j1 = Some ?first" by (simp add: j1_def next_index_def)
    have t: "\<forall>r \<in> set (drop ?first (j_entries j1)). translatable r"
      using tr ne by (auto simp: j1_def dest: in_set_dropD)
    from monitor_read_entries_from [of ?mon1 j1 ?first, OF _ ni t] True ne
    show ?thesis by (simp add: j1_def)
  next
    case False
    then have ni: "next_index j1 = None" by (auto simp: j1_def next_index_def)
    from False have k0: "records \<noteq> [] \<Longrightarrow> ?m - 1 - ?k = ?m - 1" by auto
    from monitor_read_entries_end [of ?mon1 j1, OF _ ni] False k0
    show ?thesis by (auto simp: j1_def)
  qed
  from skip obtain n1 where skip': "sd_journal_previous_skip ?j0 (Suc ?k) = (j1, Inr n1)" by blast
  from read obtain n2 where
    read': "monitor_read_entries ?mon1 = (?mon', Inr (?entries, n2))" by blast
  have free: "monitor_free
        \<lparr>call = c, journal = Some \<lparr>j_fd = fd, j_entries = es, j_loc = l\<rparr>, cursor = cu,
         epoll_fd = efd\<rparr> (?w1\<lparr>replies := rs\<rparr>) = w\<lparr>replies := rs\<rparr>" for es l cu rs
    using monitor_free_fresh [where j = "\<lparr>j_fd = fd, j_entries = es, j_loc = l\<rparr>" and w = w
        and t = "TAG_MONITOR c" and rs = rs] fresh by simp
  show ?thesis
    using lines(2)
    by (simp add: com_redhat_logging_monitor_def new lines(1) skip_arg skip' read'
        varlink_call_reply_def free Let_def)
qed


section \<open>What the calls keep of a Monitor\<close>

lemma sd_journal_next_fd: "j_fd (fst (sd_journal_next j)) = j_fd j"
  by (simp add: sd_journal_next_index split: option.splits)

lemma journal_read_next_entry_fd: "j_fd (fst (journal_read_next_entry j)) = j_fd j"
proof (cases "next_index j")
  case None
  then show ?thesis by (simp add: journal_read_next_entry_end)
next
  case (Some k)
  then show ?thesis by (simp add: journal_read_next_entry_index)
qed

lemma read_loop_fd: "j_fd (fst (read_loop j acc n)) = j_fd j"
proof (induction j acc n rule: read_loop.induct)
  case (1 j acc n)
  obtain j' res where r: "journal_read_next_entry j = (j', res)"
    by (cases "journal_read_next_entry j")
  with journal_read_next_entry_fd [of j] have fd: "j_fd j' = j_fd j" by simp
  show ?case
  proof (cases res)
    case (Inl e)
    with r fd show ?thesis by (subst read_loop.simps) simp
  next
    case (Inr oe)
    show ?thesis
    proof (cases oe)
      case None
      with r Inr fd show ?thesis by (subst read_loop.simps) simp
    next
      case (Some e)
      from "1.IH" [OF r [symmetric] Inr Some] r Inr Some fd show ?thesis
        by (subst read_loop.simps) simp
    qed
  qed
qed

lemma monitor_read_entries_keeps:
  assumes "monitor_read_entries monitor = (monitor', res)"
  shows "call monitor' = call monitor \<and> epoll_fd monitor' = epoll_fd monitor \<and>
         map_option j_fd (journal monitor') = map_option j_fd (journal monitor)"
proof (cases "journal monitor")
  case None
  with assms show ?thesis by (auto simp: monitor_read_entries_def)
next
  case (Some j)
  obtain j' lr where l: "read_loop j [] 0 = (j', lr)" by (cases "read_loop j [] 0")
  with read_loop_fd [of j "[]" 0] have "j_fd j' = j_fd j" by simp
  with assms Some l show ?thesis
    by (auto simp: monitor_read_entries_def Let_def split: sum.splits prod.splits if_splits)
qed

lemma sd_journal_previous_fd: "j_fd (fst (sd_journal_previous j)) = j_fd j"
  by (simp add: sd_journal_previous_def split: location.splits option.splits)

lemma previous_steps_fd: "j_fd (fst (previous_steps n j c)) = j_fd j"
proof (induction n arbitrary: j c)
  case 0
  then show ?case by simp
next
  case (Suc n)
  obtain j' res where p: "sd_journal_previous j = (j', res)" by (cases "sd_journal_previous j")
  with sd_journal_previous_fd [of j] have "j_fd j' = j_fd j" by simp
  with Suc.IH [of j' "Suc c"] p show ?case by (auto split: sum.splits)
qed

lemma sd_journal_previous_skip_fd: "j_fd (fst (sd_journal_previous_skip j n)) = j_fd j"
  using sd_journal_previous_fd [of j]
  by (auto simp: sd_journal_previous_skip_def previous_steps_fd
      split: location.splits prod.splits sum.splits)

lemma monitor_free_fd:
  assumes "journal monitor = Some j"
  shows "epoll (monitor_free monitor w) = (epoll w)(j_fd j := None)"
    and "journals (monitor_free monitor w) = journals w - {j_fd j}"
    and "replies (monitor_free monitor w) = replies w"
  using assms
  by (simp_all add: monitor_free_def epoll_del_def sd_journal_close_def sd_journal_get_fd_def)

lemma monitor_new_Inr:
  assumes "monitor_new ev w c efd = (w1, Inr monitor)"
  shows "\<exists>fd records. env_journal_open ev = Inr (fd, records) \<and> env_epoll_add ev = None"
  using assms
  by (auto simp: monitor_new_def sd_journal_open_def epoll_add_def sd_journal_seek_tail_def
      Let_def split: sum.splits option.splits prod.splits)


text \<open>
  What the handler leaves behind, on every path: either nothing of the Monitor, or, for a
  call that asked for more replies and got its first one, the Monitor with its open reader
  registered.
\<close>

lemma handler_post:
  assumes fresh: "\<forall>fd records. env_journal_open ev = Inr (fd, records) \<longrightarrow>
                    epoll w fd = None \<and> fd \<notin> journals w"
    and run: "com_redhat_logging_monitor ev w c parameters flags efd = (w', r, kept)"
  shows "(kept = None \<longrightarrow> epoll w' = epoll w \<and> journals w' = journals w) \<and>
         (\<forall>monitor. kept = Some monitor \<longrightarrow>
            flags AND VARLINK_CALL_MORE \<noteq> 0 \<and> r = 0 \<and>
            (\<exists>j. journal monitor = Some j \<and>
                 epoll w' = (epoll w)(j_fd j \<mapsto> TAG_MONITOR c) \<and>
                 journals w' = insert (j_fd j) (journals w)))"
proof (cases "monitor_new ev w c efd")
  case (Pair w1 res)
  show ?thesis
  proof (cases res)
    case (Inl e)
    with Pair monitor_new_failed [OF _ fresh] have "w1 = w" by simp
    with run Pair Inl show ?thesis by (simp add: com_redhat_logging_monitor_def)
  next
    case (Inr monitor)
    from monitor_new_Inr [of ev w c efd w1 monitor] Pair Inr obtain fd records where
      opened: "env_journal_open ev = Inr (fd, records)" "env_epoll_add ev = None" by auto
    with fresh have fr: "epoll w fd = None" "fd \<notin> journals w" by auto
    let ?j0 = "\<lparr>j_fd = fd, j_entries = records, j_loc = LOCATION_TAIL\<rparr>"
    from monitor_new_opened [OF opened, of w c efd] Pair Inr
    have w1: "w1 = w\<lparr>journals := insert fd (journals w), epoll := (epoll w)(fd \<mapsto> TAG_MONITOR c)\<rparr>"
      and mon: "monitor = \<lparr>call = c, journal = Some ?j0, cursor = None, epoll_fd = efd\<rparr>"
      by simp_all
    define held where "held x \<longleftrightarrow> epoll x = (epoll w)(fd \<mapsto> TAG_MONITOR c) \<and>
      journals x = insert fd (journals w)" for x :: world
    have held1: "held w1" by (simp add: held_def w1)
    have held_reply: "held (fst (varlink_call_reply ev x c f))" if "held x" for x f
      using that by (simp add: held_def varlink_call_reply_def)
    have freed: "epoll (monitor_free m x) = epoll w \<and> journals (monitor_free m x) = journals w"
      if "held x" and "journal m = Some j" and "j_fd j = fd" for m x j
      using that fr by (simp add: held_def monitor_free_fd fun_upd_idem)
    let ?lines = "varlink_object_get_int parameters ''initial_lines'' 10"
    show ?thesis
    proof (cases "?lines <s 0")
      case True
      obtain w2 r2 where rep: "varlink_call_reply ev w1 c (InvalidParameter ''initial_lines'') = (w2, r2)"
        by (cases "varlink_call_reply ev w1 c (InvalidParameter ''initial_lines'')")
      with held_reply [OF held1, of "InvalidParameter ''initial_lines''"] have "held w2" by simp
      from freed [OF this, of monitor ?j0] mon
      have "epoll (monitor_free monitor w2) = epoll w \<and> journals (monitor_free monitor w2) = journals w"
        by simp
      with run Pair Inr True rep show ?thesis
        by (auto simp: com_redhat_logging_monitor_def varlink_call_reply_invalid_parameter_def
            Let_def)
    next
      case False
      obtain j1 sres where skip: "sd_journal_previous_skip ?j0 (unat (?lines + 1)) = (j1, sres)"
        by (cases "sd_journal_previous_skip ?j0 (unat (?lines + 1))")
      with sd_journal_previous_skip_fd [of ?j0 "unat (?lines + 1)"] have fd1: "j_fd j1 = fd" by simp
      let ?mon1 = "\<lparr>call = c, journal = Some j1, cursor = None, epoll_fd = efd\<rparr>"
      show ?thesis
      proof (cases sres)
        case (Inl e)
        from freed [OF held1, of ?mon1 j1] fd1
        have "epoll (monitor_free ?mon1 w1) = epoll w \<and> journals (monitor_free ?mon1 w1) = journals w"
          by simp
        with run Pair Inr False skip Inl mon show ?thesis
          by (auto simp: com_redhat_logging_monitor_def Let_def)
      next
        case sk: (Inr n1)
        obtain monitor' rres where rd: "monitor_read_entries ?mon1 = (monitor', rres)"
          by (cases "monitor_read_entries ?mon1")
        from monitor_read_entries_keeps [OF rd] fd1 obtain j2 where
          j2: "journal monitor' = Some j2" "j_fd j2 = fd" by auto
        show ?thesis
        proof (cases rres)
          case (Inl r1)
          from freed [OF held1 j2]
          have "epoll (monitor_free monitor' w1) = epoll w \<and>
              journals (monitor_free monitor' w1) = journals w" .
          with run Pair Inr False skip sk rd Inl mon show ?thesis
            by (auto simp: com_redhat_logging_monitor_def Let_def)
        next
          case rr: (Inr en)
          obtain entries n2 where en: "en = (entries, n2)" by (cases en)
          let ?f = "Reply entries (flags AND VARLINK_CALL_MORE \<noteq> 0)"
          obtain w2 r2 where rep: "varlink_call_reply ev w1 c ?f = (w2, r2)"
            by (cases "varlink_call_reply ev w1 c ?f")
          with held_reply [OF held1, of ?f] have h2: "held w2" by simp
          from freed [OF h2 j2]
          have fr2: "epoll (monitor_free monitor' w2) = epoll w \<and>
              journals (monitor_free monitor' w2) = journals w" .
          from run Pair Inr False skip sk rd rr en rep mon
          have res: "(w', r, kept) =
              (if r2 < 0 then (monitor_free monitor' w2, r2, None)
               else if flags AND VARLINK_CALL_MORE \<noteq> 0 then (w2, 0, Some monitor')
               else (monitor_free monitor' w2, 0, None))"
            by (simp add: com_redhat_logging_monitor_def Let_def)
          show ?thesis
          proof (cases "r2 < 0 \<or> flags AND VARLINK_CALL_MORE = 0")
            case True
            with res fr2 show ?thesis by (auto split: if_splits)
          next
            case False
            with res have "w' = w2" "r = 0" "kept = Some monitor'" by (auto split: if_splits)
            with False h2 j2 show ?thesis by (auto simp: held_def)
          qed
        qed
      qed
    qed
  qed
qed

section \<open>The initial reply\<close>

lemma world0_fresh:
  "\<forall>fd records. env_journal_open ev = Inr (fd, records) \<longrightarrow>
     epoll world0 fd = None \<and> fd \<notin> journals world0"
  by (simp add: world0_def)

text \<open>
  C3, as the code has it. For a count \<open>k\<close> that is not negative and below
  \<open>2147483647\<close>, so that the skip \<open>k + 1\<close> is one the library accepts, and a log of
  \<open>m\<close> records that all translate, with \<open>m = 0\<close> or \<open>m > k\<close>: the handler replies
  once, with the last \<open>k\<close> records of the log in the order of the log; the reply has
  \<open>min k m\<close> entries and is empty exactly when \<open>k = 0\<close> or \<open>m = 0\<close>.
\<close>

theorem initial_reply:
  assumes opened: "env_journal_open ev = Inr (fd, records)" "env_epoll_add ev = None"
    and fresh: "epoll w fd = None" "fd \<notin> journals w"
    and lines: "varlink_object_get_int parameters ''initial_lines'' 10 = initial_lines"
      "\<not> initial_lines <s 0"
    and range: "unat initial_lines < 2147483647"
    and tr: "\<forall>r \<in> set records. translatable r"
    and enough: "records = [] \<or> unat initial_lines < length records"
  shows "\<exists>w' r kept entries.
           com_redhat_logging_monitor ev w c parameters flags efd = (w', r, kept) \<and>
           replies w' = replies w @ [(c, Reply entries (flags AND VARLINK_CALL_MORE \<noteq> 0))] \<and>
           entries = map wire_entry (drop (length records - unat initial_lines) records) \<and>
           map e_cursor entries = map r_cursor (drop (length records - unat initial_lines) records) \<and>
           length entries = min (unat initial_lines) (length records) \<and>
           (entries = [] \<longleftrightarrow> unat initial_lines = 0 \<or> records = [])"
proof -
  let ?k = "unat initial_lines" and ?m = "length records"
  let ?entries = "map wire_entry (drop (?m - ?k) records)"
  have first: "drop (Suc (?m - Suc ?k)) records = drop (?m - ?k) records"
  proof (cases "records = []")
    case True
    then show ?thesis by simp
  next
    case False
    with enough have "Suc (?m - Suc ?k) = ?m - ?k" by auto
    then show ?thesis by simp
  qed
  have "\<exists>w' r kept. com_redhat_logging_monitor ev w c parameters flags efd = (w', r, kept) \<and>
      replies w' = replies w @ [(c, Reply ?entries (flags AND VARLINK_CALL_MORE \<noteq> 0))]"
    by (simp add: handler_run [OF opened fresh lines range tr] first Let_def)
  moreover have "map e_cursor ?entries = map r_cursor (drop (?m - ?k) records)"
    by (simp add: wire_entry_def)
  moreover have "length ?entries = min ?k ?m" by auto
  moreover have "?entries = [] \<longleftrightarrow> ?k = 0 \<or> records = []" using enough by auto
  ultimately show ?thesis by blast
qed

lemma wire_entries_scenario_log:
  "map e_message (map wire_entry scenario_log) = [''boot ok'', ''disk warn'', ''heartbeat'']"
  "map e_priority (map wire_entry scenario_log) = [Some ''critical'', Some ''warning'', None]"
  "map e_cursor (map wire_entry scenario_log) = [''c0'', ''c1'', ''c2'']"
  by (simp_all add: wire_entry_def scenario_log_def c_string_def strtoll_def isspace_def
      isdigit_def digits_value_def digit_val_def LLONG_MAX_def priorities_def)

theorem initial_reply_witness:
  "\<exists>w' r kept entries.
      com_redhat_logging_monitor (env_of (Inr (7, scenario_log))) world0 1
        [(''initial_lines'', 2)] 0 4 = (w', r, kept) \<and>
      replies w' = [(1, Reply entries False)] \<and>
      length entries = 2 \<and>
      map e_message entries = [''disk warn'', ''heartbeat''] \<and>
      map e_priority entries = [Some ''warning'', None]"
proof -
  have opened: "env_journal_open (env_of (Inr (7, scenario_log))) = Inr (7, scenario_log)"
    "env_epoll_add (env_of (Inr (7, scenario_log))) = None"
    by (simp_all add: env_of_def)
  have fresh: "epoll world0 7 = None" "7 \<notin> journals world0" by (simp_all add: world0_def)
  have lines: "varlink_object_get_int [(''initial_lines'', 2)] ''initial_lines'' 10 = 2"
    "\<not> (2 :: 64 word) <s 0"
    by (simp_all add: varlink_object_get_int_def word_sless_alt)
  have range: "unat (2 :: 64 word) < 2147483647" by simp
  have enough: "scenario_log = [] \<or> unat (2 :: 64 word) < length scenario_log"
    by (simp add: scenario_log_def)
  have d: "map wire_entry (drop (length scenario_log - unat (2 :: 64 word)) scenario_log)
      = drop 1 (map wire_entry scenario_log)"
    by (simp add: scenario_log_def)
  have r: "replies world0 = []" and f: "\<not> (0 :: 64 word) AND VARLINK_CALL_MORE \<noteq> 0"
    by (simp_all add: world0_def)
  from initial_reply [OF opened fresh lines range translatable_scenario_log enough, of 1 0 4]
  obtain w' r kept entries where
    run: "com_redhat_logging_monitor (env_of (Inr (7, scenario_log))) world0 1
        [(''initial_lines'', 2)] 0 4 = (w', r, kept)"
    and rep: "replies w' = [(1, Reply entries False)]"
    and entries: "entries = drop 1 (map wire_entry scenario_log)"
    unfolding d r f by auto
  have "length entries = 2" by (simp add: entries scenario_log_def)
  moreover have "map e_message entries = [''disk warn'', ''heartbeat'']"
    using wire_entries_scenario_log(1) by (simp add: entries drop_map [symmetric] del: drop_map)
  moreover have "map e_priority entries = [Some ''warning'', None]"
    using wire_entries_scenario_log(2) by (simp add: entries drop_map [symmetric] del: drop_map)
  ultimately show ?thesis using run rep by (intro exI conjI)
qed

text \<open>
  C3, as the claim states it, fails: with \<open>initial_lines = 0\<close> on a log of one record the
  reply is empty, though the log is not.
\<close>

theorem initial_reply_counterexample:
  "fst (com_redhat_logging_monitor (env_of (Inr (7, priority_log ''6''))) world0 1
         [(''initial_lines'', 0)] 0 4)
     = world0\<lparr>replies := [(1, Reply [] False)]\<rparr>
   \<and> length (priority_log ''6'') = 1"
proof -
  have opened: "env_journal_open (env_of (Inr (7, priority_log ''6''))) = Inr (7, priority_log ''6'')"
    "env_epoll_add (env_of (Inr (7, priority_log ''6''))) = None"
    by (simp_all add: env_of_def)
  have fresh: "epoll world0 7 = None" "7 \<notin> journals world0" by (simp_all add: world0_def)
  have lines: "varlink_object_get_int [(''initial_lines'', 0)] ''initial_lines'' 10 = 0"
    "\<not> (0 :: 64 word) <s 0"
    by (simp_all add: varlink_object_get_int_def word_sless_alt)
  have range: "unat (0 :: 64 word) < 2147483647" by simp
  have tr: "\<forall>r \<in> set (priority_log ''6''). translatable r"
    by (simp add: priority_log_def translatable_def leading_integer_def c_string_def
        isspace_def isdigit_def)
  have "env_reply (env_of (Inr (7, priority_log ''6''))) = 0" by (simp add: env_of_def)
  moreover have "length (priority_log ''6'') = 1" by (simp add: priority_log_def)
  moreover note handler_run [OF opened fresh lines range tr, of 1 0 4]
  ultimately show ?thesis
    by (simp add: Let_def world0_def)
qed

text \<open>
  A log that is not longer than the count: the skip back from the tail stops on the oldest
  record, and the batch starts after it. With \<open>initial_lines = 3\<close> on the log of three
  records the reply has two entries.
\<close>

lemma initial_reply_whole_log:
  "\<exists>w' r kept entries.
      com_redhat_logging_monitor (env_of (Inr (7, scenario_log))) world0 1
        [(''initial_lines'', 3)] 0 4 = (w', r, kept) \<and>
      replies w' = [(1, Reply entries False)] \<and>
      map e_cursor entries = [''c1'', ''c2'']"
proof -
  have opened: "env_journal_open (env_of (Inr (7, scenario_log))) = Inr (7, scenario_log)"
    "env_epoll_add (env_of (Inr (7, scenario_log))) = None"
    by (simp_all add: env_of_def)
  have fresh: "epoll world0 7 = None" "7 \<notin> journals world0" by (simp_all add: world0_def)
  have lines: "varlink_object_get_int [(''initial_lines'', 3)] ''initial_lines'' 10 = 3"
    "\<not> (3 :: 64 word) <s 0"
    by (simp_all add: varlink_object_get_int_def word_sless_alt)
  have range: "unat (3 :: 64 word) < 2147483647" by simp
  have d: "map wire_entry (drop (Suc (length scenario_log - 1 - unat (3 :: 64 word))) scenario_log)
      = drop 1 (map wire_entry scenario_log)"
    by (simp add: scenario_log_def)
  have r: "env_reply (env_of (Inr (7, scenario_log))) = 0" "replies world0 = []"
    by (simp_all add: env_of_def world0_def)
  have "map e_cursor (drop 1 (map wire_entry scenario_log)) = [''c1'', ''c2'']"
    using wire_entries_scenario_log(3) by (simp add: drop_map [symmetric] del: drop_map)
  with handler_run [OF opened fresh lines range translatable_scenario_log, of 1 0 4]
  show ?thesis
    unfolding d r Let_def by simp
qed

text \<open>
  A count of \<open>2147483647\<close> or more: the skip is refused, the handler returns
  \<^verbatim>\<open>-ERANGE\<close>, replies nothing and keeps nothing.
\<close>

lemma handler_count_out_of_range:
  assumes opened: "env_journal_open ev = Inr (fd, records)" "env_epoll_add ev = None"
    and fresh: "epoll w fd = None" "fd \<notin> journals w"
    and lines: "varlink_object_get_int parameters ''initial_lines'' 10 = initial_lines"
      "\<not> initial_lines <s 0"
    and range: "2147483647 \<le> unat initial_lines"
  shows "com_redhat_logging_monitor ev w c parameters flags efd = (w, - 34, None)"
proof -
  let ?j0 = "\<lparr>j_fd = fd, j_entries = records, j_loc = LOCATION_TAIL\<rparr>"
  have "sd_journal_previous_skip ?j0 (Suc k) = (?j0, Inl ERANGE)" if "2147483647 \<le> k" for k
    using that by (simp add: sd_journal_previous_skip_def INT_MAX_def)
  from this [OF range]
  have skip: "sd_journal_previous_skip ?j0 (Suc (unat initial_lines)) = (?j0, Inl ERANGE)" .
  have free: "monitor_free \<lparr>call = c, journal = Some ?j0, cursor = None, epoll_fd = efd\<rparr>
      (w\<lparr>journals := insert fd (journals w), epoll := (epoll w)(fd \<mapsto> TAG_MONITOR c)\<rparr>) = w"
    using fresh
    by (simp add: monitor_free_def epoll_del_def sd_journal_close_def sd_journal_get_fd_def
        fun_upd_idem)
  show ?thesis
    using lines(2)
    by (simp add: com_redhat_logging_monitor_def monitor_new_opened [OF opened] lines(1)
        unat_initial_lines_plus_1 [OF lines(2)] skip free Let_def)
qed

section \<open>Dispatch and the main loop\<close>

lemma monitor_dispatch_keeps:
  assumes "monitor_dispatch ev monitor change w = (w', monitor', r)"
  shows "epoll w' = epoll w \<and> journals w' = journals w \<and> call monitor' = call monitor \<and>
         epoll_fd monitor' = epoll_fd monitor \<and>
         map_option j_fd (journal monitor') = map_option j_fd (journal monitor)"
proof (cases "journal monitor")
  case None
  with assms show ?thesis by (simp add: monitor_dispatch_def)
next
  case (Some j0)
  define j1 where "j1 = j0\<lparr>j_entries := snd change\<rparr>"
  have keeps: "epoll w' = epoll w \<and> journals w' = journals w \<and> call monitor' = call monitor \<and>
         epoll_fd monitor' = epoll_fd monitor \<and> map_option j_fd (journal monitor') = Some (j_fd j0)"
    if read: "monitor_read_entries (monitor\<lparr>journal := Some j2\<rparr>) = (m, res)"
      and fd: "j_fd j2 = j_fd j0"
      and out: "(w', monitor', r) =
        (case res of Inl r \<Rightarrow> (w, m, r)
         | Inr (entries, r) \<Rightarrow>
             if r = 0 then (w, m, 0)
             else (case varlink_call_reply ev w (call m) (Reply entries True) of
                     (w', r') \<Rightarrow> (w', m, r')))" for j2 m res
    using monitor_read_entries_keeps [OF read] fd out
    by (auto simp: varlink_call_reply_def split: sum.splits prod.splits if_splits)
  show ?thesis
  proof (cases "fst change = SD_JOURNAL_INVALIDATE")
    case True
    define j2 where "j2 = j1\<lparr>j_loc := (case cursor monitor of Some c \<Rightarrow> LOCATION_SEEK c
                                          | None \<Rightarrow> LOCATION_TAIL)\<rparr>"
    obtain m res where read: "monitor_read_entries (monitor\<lparr>journal := Some j2\<rparr>) = (m, res)"
      by (cases "monitor_read_entries (monitor\<lparr>journal := Some j2\<rparr>)")
    have "j_fd j2 = j_fd j0" by (simp add: j2_def j1_def)
    from keeps [OF read this] assms Some True read show ?thesis
      by (simp add: monitor_dispatch_def sd_journal_process_def sd_journal_seek_cursor_def
          sd_journal_seek_tail_def j2_def j1_def split: option.splits)
  next
    case False
    show ?thesis
    proof (cases "fst change = SD_JOURNAL_APPEND")
      case True
      obtain m res where read: "monitor_read_entries (monitor\<lparr>journal := Some j1\<rparr>) = (m, res)"
        by (cases "monitor_read_entries (monitor\<lparr>journal := Some j1\<rparr>)")
      have "j_fd j1 = j_fd j0" by (simp add: j1_def)
      from keeps [OF read this] assms Some True False read show ?thesis
        by (simp add: monitor_dispatch_def sd_journal_process_def j1_def)
    next
      case nop: False
      with assms Some False show ?thesis
        by (auto simp: monitor_dispatch_def sd_journal_process_def)
    qed
  qed
qed

lemma find_cursor_nth: "find_cursor c rs = Some k \<Longrightarrow> r_cursor (rs ! k) = c"
  by (induction rs arbitrary: k) (auto split: if_splits)

text \<open>
  Dispatch of an invalidation for a Monitor that stores a cursor, on a log that still holds
  the record of the cursor and whose records from there on translate: the batch starts
  with that record.
\<close>

lemma monitor_dispatch_invalidate:
  assumes "journal monitor = Some j0" and "cursor monitor = Some c"
    and "find_cursor c records = Some k"
    and "\<forall>r \<in> set (drop k records). translatable r"
  shows "monitor_dispatch ev monitor (SD_JOURNAL_INVALIDATE, records) w =
           (w\<lparr>replies := replies w @ [(call monitor, Reply (map wire_entry (drop k records)) True)]\<rparr>,
            monitor\<lparr>journal := Some (j0\<lparr>j_entries := records,
                                         j_loc := LOCATION_DISCRETE (length records - 1)\<rparr>),
                    cursor := Some (r_cursor (last records))\<rparr>,
            env_reply ev)"
proof -
  let ?j2 = "j0\<lparr>j_entries := records, j_loc := LOCATION_SEEK c\<rparr>"
  have ni: "next_index ?j2 = Some k" using assms(3) by (simp add: next_index_def)
  have t: "\<forall>r \<in> set (drop k (j_entries ?j2)). translatable r" using assms(4) by simp
  have k: "k < length records" by (rule find_cursor_less [OF assms(3)])
  from monitor_read_entries_from [of "monitor\<lparr>journal := Some ?j2\<rparr>" ?j2 k, OF _ ni t] k assms(1,2)
  show ?thesis
    by (simp add: monitor_dispatch_def sd_journal_process_def sd_journal_seek_cursor_def
        varlink_call_reply_def)
qed

text \<open>
  C4. The code at a failing input: a streaming Monitor has delivered the records up to
  \<open>c1\<close> and stores that cursor; the log is invalidated and now holds \<open>c0\<close>, \<open>c1\<close>,
  \<open>c2\<close>. The reply that dispatch sends starts with the record \<open>c1\<close> again.
\<close>

theorem invalidate_delivers_cursor_record_again:
  "cursor (monitor_at (take 2 scenario_log) (LOCATION_DISCRETE 1) (Some ''c1'')) = Some ''c1''
   \<and> fst (monitor_dispatch (env_of (Inl EIO))
            (monitor_at (take 2 scenario_log) (LOCATION_DISCRETE 1) (Some ''c1''))
            (SD_JOURNAL_INVALIDATE, scenario_log) world0)
       = world0\<lparr>replies := [(1, Reply (map wire_entry (drop 1 scenario_log)) True)]\<rparr>
   \<and> map e_cursor (map wire_entry (drop 1 scenario_log)) = [''c1'', ''c2'']"
proof -
  let ?m = "monitor_at (take 2 scenario_log) (LOCATION_DISCRETE 1) (Some ''c1'')"
  have j: "journal ?m = Some (journal_at (take 2 scenario_log) (LOCATION_DISCRETE 1))"
    and c: "cursor ?m = Some ''c1''"
    by (simp_all add: monitor_at_def)
  have f: "find_cursor ''c1'' scenario_log = Some 1" by (simp add: scenario_log_def)
  have t: "\<forall>r \<in> set (drop 1 scenario_log). translatable r"
    using translatable_scenario_log by (auto dest: in_set_dropD)
  have "map e_cursor (map wire_entry (drop 1 scenario_log)) = [''c1'', ''c2'']"
    using wire_entries_scenario_log(3) by (simp add: scenario_log_def)
  moreover note monitor_dispatch_invalidate [OF j c f t, of "env_of (Inl EIO)" world0]
  ultimately show ?thesis by (simp add: monitor_at_def world0_def)
qed


lemma monitor_read_entries_stop:
  assumes "journal monitor = Some j" and "next_index j = Some k"
    and "\<not> translatable (j_entries j ! k)"
  shows "monitor_read_entries monitor =
           (monitor\<lparr>journal := Some (j\<lparr>j_loc := LOCATION_DISCRETE k\<rparr>)\<rparr>,
            Inl (- VARLINK_ERROR_PANIC))"
  using read_loop_stop [OF assms(2,3), of "[]" 0] assms(1)
  by (auto simp: monitor_read_entries_def)

text \<open>
  C1, as the code has it. When the read-batch of a dispatch fails, \<^verbatim>\<open>monitor_dispatch\<close>
  returns the Panic code and leaves the state as it was: no reply and no error goes to the
  client, and the Monitor stays registered. The main loop then returns from \<^verbatim>\<open>main\<close>
  with the exit status \<open>ERROR_PANIC\<close>: the service process ends.
\<close>

theorem read_failure_ends_service:
  assumes "journal monitor = Some j0"
    and "event = SD_JOURNAL_APPEND \<and> j2 = j0\<lparr>j_entries := records\<rparr> \<or>
         event = SD_JOURNAL_INVALIDATE \<and>
         j2 = j0\<lparr>j_entries := records,
                j_loc := (case cursor monitor of Some c \<Rightarrow> LOCATION_SEEK c
                          | None \<Rightarrow> LOCATION_TAIL)\<rparr>"
    and "monitor_read_entries (monitor\<lparr>journal := Some j2\<rparr>) = (monitor', Inl r)"
  shows "monitor_dispatch ev monitor (event, records) w = (w, monitor', - VARLINK_ERROR_PANIC)
         \<and> main_turn ev (WAIT_EVENT (TAG_MONITOR c)) service_result signo monitor
              (event, records) w = (w, monitor', RETURN ERROR_PANIC)
         \<and> ERROR_PANIC \<noteq> EXIT_SUCCESS"
proof -
  have r: "r = - VARLINK_ERROR_PANIC" by (rule monitor_read_entries_Inl [OF assms(3)])
  have d: "monitor_dispatch ev monitor (event, records) w = (w, monitor', - VARLINK_ERROR_PANIC)"
    using assms r
    by (auto simp: monitor_dispatch_def sd_journal_process_def sd_journal_seek_cursor_def
        sd_journal_seek_tail_def SD_JOURNAL_APPEND_def SD_JOURNAL_INVALIDATE_def
        split: option.splits)
  then have "main_turn ev (WAIT_EVENT (TAG_MONITOR c)) service_result signo monitor
      (event, records) w = (w, monitor', RETURN ERROR_PANIC)"
    by (simp add: main_turn_def exit_error_def VARLINK_ERROR_PANIC_def)
  with d show ?thesis by (simp add: ERROR_PANIC_def EXIT_SUCCESS_def)
qed

lemma read_broken_log:
  "monitor_read_entries (monitor_at broken_log (LOCATION_DISCRETE 2) (Some ''c2'')) =
     (monitor_at broken_log (LOCATION_DISCRETE 3) (Some ''c2''), Inl (- VARLINK_ERROR_PANIC))"
proof -
  have ni: "next_index (journal_at broken_log (LOCATION_DISCRETE 2)) = Some 3"
    by (simp add: next_index_def journal_at_def broken_log_def scenario_log_def priority_log_def)
  have bad: "\<not> translatable (j_entries (journal_at broken_log (LOCATION_DISCRETE 2)) ! 3)"
    by (simp add: journal_at_def broken_log_def scenario_log_def priority_log_def
        translatable_def leading_integer_def c_string_def isspace_def isdigit_def)
  from monitor_read_entries_stop [OF _ ni bad,
      of "monitor_at broken_log (LOCATION_DISCRETE 2) (Some ''c2'')"]
  show ?thesis by (simp add: monitor_at_def journal_at_def)
qed

theorem read_failure_ends_service_witness:
  "monitor_dispatch (env_of (Inl EIO)) (monitor_at scenario_log (LOCATION_DISCRETE 2) (Some ''c2''))
     (SD_JOURNAL_APPEND, broken_log) world0
     = (world0, monitor_at broken_log (LOCATION_DISCRETE 3) (Some ''c2''), - VARLINK_ERROR_PANIC)
   \<and> main_turn (env_of (Inl EIO)) (WAIT_EVENT (TAG_MONITOR 1)) 0 0
       (monitor_at scenario_log (LOCATION_DISCRETE 2) (Some ''c2''))
       (SD_JOURNAL_APPEND, broken_log) world0
     = (world0, monitor_at broken_log (LOCATION_DISCRETE 3) (Some ''c2''), RETURN ERROR_PANIC)"
proof -
  let ?m = "monitor_at scenario_log (LOCATION_DISCRETE 2) (Some ''c2'')"
  let ?j0 = "journal_at scenario_log (LOCATION_DISCRETE 2)"
  have j: "journal ?m = Some ?j0" by (simp add: monitor_at_def)
  have e: "SD_JOURNAL_APPEND = SD_JOURNAL_APPEND \<and>
      journal_at broken_log (LOCATION_DISCRETE 2) = ?j0\<lparr>j_entries := broken_log\<rparr> \<or>
      SD_JOURNAL_APPEND = SD_JOURNAL_INVALIDATE \<and>
      journal_at broken_log (LOCATION_DISCRETE 2) =
        ?j0\<lparr>j_entries := broken_log,
            j_loc := (case cursor ?m of Some c \<Rightarrow> LOCATION_SEEK c | None \<Rightarrow> LOCATION_TAIL)\<rparr>"
    by (simp add: journal_at_def)
  have rd: "monitor_read_entries (?m\<lparr>journal := Some (journal_at broken_log (LOCATION_DISCRETE 2))\<rparr>)
      = (monitor_at broken_log (LOCATION_DISCRETE 3) (Some ''c2''), Inl (- VARLINK_ERROR_PANIC))"
    using read_broken_log by (simp add: monitor_at_def)
  from read_failure_ends_service [OF j e rd, of "env_of (Inl EIO)" world0 1 0 0]
  show ?thesis by simp
qed

text \<open>
  C1, as the claim states it, fails: a streaming session is woken for an appended record
  that has no leading integer in its priority. The turn of the main loop ends with a
  return from \<^verbatim>\<open>main\<close>, status 1, and nothing was sent to the client.
\<close>

theorem read_failure_counterexample:
  "main_turn (env_of (Inl EIO)) (WAIT_EVENT (TAG_MONITOR 1)) 0 0
       (monitor_at scenario_log (LOCATION_DISCRETE 2) (Some ''c2''))
       (SD_JOURNAL_APPEND, broken_log) world0
     = (world0, monitor_at broken_log (LOCATION_DISCRETE 3) (Some ''c2''), RETURN 1)
   \<and> replies world0 = []"
proof -
  have "monitor_read_entries
      (monitor_at scenario_log (LOCATION_DISCRETE 2) (Some ''c2'')
        \<lparr>journal := Some (journal_at scenario_log (LOCATION_DISCRETE 2)\<lparr>j_entries := broken_log\<rparr>)\<rparr>)
      = (monitor_at broken_log (LOCATION_DISCRETE 3) (Some ''c2''), Inl (- VARLINK_ERROR_PANIC))"
    using read_broken_log by (simp add: monitor_at_def journal_at_def)
  then have "monitor_dispatch (env_of (Inl EIO))
      (monitor_at scenario_log (LOCATION_DISCRETE 2) (Some ''c2''))
      (SD_JOURNAL_APPEND, broken_log) world0
      = (world0, monitor_at broken_log (LOCATION_DISCRETE 3) (Some ''c2''), - VARLINK_ERROR_PANIC)"
    by (simp add: monitor_dispatch_def sd_journal_process_def monitor_at_def
        SD_JOURNAL_APPEND_def SD_JOURNAL_INVALIDATE_def)
  then show ?thesis
    by (simp add: main_turn_def exit_error_def ERROR_PANIC_def VARLINK_ERROR_PANIC_def world0_def)
qed


section \<open>Sessions and the event multiplexer\<close>

text \<open>
  C6, as the code has it. A call with a negative \<open>initial_lines\<close> leaves no session: the
  handler keeps no Monitor, and the registrations and the open readers are as before the
  call. When \<^verbatim>\<open>monitor_new\<close> succeeded the handler replies with the InvalidParameter
  error that names \<open>initial_lines\<close>; when it failed the handler returns its error and
  replies nothing.
\<close>

theorem negative_initial_lines:
  assumes fresh: "\<forall>fd records. env_journal_open ev = Inr (fd, records) \<longrightarrow>
                    epoll w fd = None \<and> fd \<notin> journals w"
    and negative: "varlink_object_get_int parameters ''initial_lines'' 10 <s 0"
    and run: "com_redhat_logging_monitor ev w c parameters flags efd = (w', r, kept)"
  shows "kept = None \<and> epoll w' = epoll w \<and> journals w' = journals w
         \<and> (\<forall>w1 monitor. monitor_new ev w c efd = (w1, Inr monitor) \<longrightarrow>
               replies w' = replies w @ [(c, InvalidParameter ''initial_lines'')] \<and>
               r = env_reply ev)
         \<and> (\<forall>w1 e. monitor_new ev w c efd = (w1, Inl e) \<longrightarrow>
               replies w' = replies w \<and> r = - errno_val e)"
proof -
  have none: "kept = None"
    using run negative
    by (auto simp: com_redhat_logging_monitor_def Let_def split: prod.splits sum.splits)
  with handler_post [OF fresh run] have same: "epoll w' = epoll w \<and> journals w' = journals w"
    by simp
  have ok: "replies w' = replies w @ [(c, InvalidParameter ''initial_lines'')] \<and> r = env_reply ev"
    if new: "monitor_new ev w c efd = (w1, Inr monitor)" for w1 monitor
  proof -
    from monitor_new_Inr [OF new] obtain fd records where
      opened: "env_journal_open ev = Inr (fd, records)" "env_epoll_add ev = None" by blast
    from monitor_new_opened [OF opened, of w c efd] new
    have "replies w1 = replies w" and "journal monitor \<noteq> None" by auto
    with run negative new show ?thesis
      by (auto simp: com_redhat_logging_monitor_def Let_def varlink_call_reply_def
          varlink_call_reply_invalid_parameter_def monitor_free_fd(3))
  qed
  have failed: "replies w' = replies w \<and> r = - errno_val e"
    if new: "monitor_new ev w c efd = (w1, Inl e)" for w1 e
    using run new monitor_new_failed [OF new fresh]
    by (simp add: com_redhat_logging_monitor_def)
  from none same ok failed show ?thesis by blast
qed

theorem negative_initial_lines_witness:
  "\<exists>w' r.
     com_redhat_logging_monitor (env_of (Inr (7, scenario_log))) world0 1
       [(''initial_lines'', - 5)] 1 4 = (w', r, None)
     \<and> epoll w' = epoll world0 \<and> journals w' = journals world0
     \<and> replies w' = [(1, InvalidParameter ''initial_lines'')] \<and> r = 0"
proof -
  let ?ev = "env_of (Inr (7, scenario_log))"
  obtain w' r kept where
    run: "com_redhat_logging_monitor ?ev world0 1 [(''initial_lines'', - 5)] 1 4 = (w', r, kept)"
    by (cases "com_redhat_logging_monitor ?ev world0 1 [(''initial_lines'', - 5)] 1 4")
  have negative: "varlink_object_get_int [(''initial_lines'', - 5)] ''initial_lines'' 10 <s 0"
    by (simp add: varlink_object_get_int_def word_sless_alt)
  have new: "monitor_new ?ev world0 1 4 =
      (world0\<lparr>journals := insert 7 (journals world0),
              epoll := (epoll world0)(7 \<mapsto> TAG_MONITOR 1)\<rparr>,
       Inr \<lparr>call = 1,
            journal = Some \<lparr>j_fd = 7, j_entries = scenario_log, j_loc = LOCATION_TAIL\<rparr>,
            cursor = None, epoll_fd = 4\<rparr>)"
    by (rule monitor_new_opened) (simp_all add: env_of_def)
  note claim = negative_initial_lines [OF world0_fresh negative run]
  from claim have "kept = None" "epoll w' = epoll world0" "journals w' = journals world0"
    by simp_all
  moreover from claim [THEN conjunct2, THEN conjunct2, THEN conjunct2, THEN conjunct1,
      rule_format, OF new]
  have "replies w' = [(1, InvalidParameter ''initial_lines'')]" "r = 0"
    by (simp_all add: world0_def env_of_def)
  ultimately show ?thesis using run by simp
qed

text \<open>
  C6, as the claim states it, fails: when the journal cannot be opened (here for lack of
  descriptors), a call with \<open>initial_lines = -1\<close> gets no InvalidParameter reply; the
  handler returns \<^verbatim>\<open>-EMFILE\<close>.
\<close>

theorem negative_initial_lines_counterexample:
  "com_redhat_logging_monitor (env_of (Inl EMFILE)) world0 1 [(''initial_lines'', - 1)] 0 4
     = (world0, - 24, None)
   \<and> varlink_object_get_int [(''initial_lines'', - 1)] ''initial_lines'' 10 <s 0
   \<and> replies world0 = []"
  by (simp add: com_redhat_logging_monitor_def monitor_new_def sd_journal_open_def env_of_def
      monitor_free_def varlink_object_get_int_def word_sless_alt world0_def)

text \<open>
  C5, as the code has it. When the handler has returned, the descriptor of a reader is
  registered exactly when the handler kept the Monitor, which it does only for a call that
  asked for more replies; the reader is then open. A call that keeps no Monitor leaves the
  registrations and the open readers as they were. Dispatch changes neither, and the
  connection-closed callback removes the registration and closes the reader.
\<close>

theorem registration_between_turns:
  assumes fresh: "\<forall>fd records. env_journal_open ev = Inr (fd, records) \<longrightarrow>
                    epoll w fd = None \<and> fd \<notin> journals w"
    and run: "com_redhat_logging_monitor ev w c parameters flags efd = (w', r, kept)"
  shows "(kept = None \<longrightarrow> epoll w' = epoll w \<and> journals w' = journals w)
         \<and> (\<forall>monitor. kept = Some monitor \<longrightarrow>
               flags AND VARLINK_CALL_MORE \<noteq> 0 \<and>
               (\<exists>j. journal monitor = Some j \<and>
                    epoll w' = (epoll w)(j_fd j \<mapsto> TAG_MONITOR c) \<and>
                    journals w' = insert (j_fd j) (journals w)))
         \<and> (flags AND VARLINK_CALL_MORE = 0 \<longrightarrow> kept = None)
         \<and> (\<forall>ev' monitor change x x' monitor' r'.
               monitor_dispatch ev' monitor change x = (x', monitor', r') \<longrightarrow>
               epoll x' = epoll x \<and> journals x' = journals x \<and>
               map_option j_fd (journal monitor') = map_option j_fd (journal monitor))
         \<and> (\<forall>monitor j x. journal monitor = Some j \<longrightarrow>
               epoll (monitor_canceled monitor x) (j_fd j) = None \<and>
               j_fd j \<notin> journals (monitor_canceled monitor x))"
proof -
  note post = handler_post [OF fresh run]
  from post have "flags AND VARLINK_CALL_MORE = 0 \<longrightarrow> kept = None"
    by (cases kept) auto
  moreover have "epoll x' = epoll x \<and> journals x' = journals x \<and>
      map_option j_fd (journal monitor') = map_option j_fd (journal monitor)"
    if "monitor_dispatch ev' monitor change x = (x', monitor', r')"
    for ev' monitor change x x' monitor' r'
    using monitor_dispatch_keeps [OF that] by simp
  moreover have "epoll (monitor_canceled monitor x) (j_fd j) = None \<and>
      j_fd j \<notin> journals (monitor_canceled monitor x)"
    if "journal monitor = Some j" for monitor j x
    using that by (simp add: monitor_canceled_def monitor_free_fd)
  ultimately show ?thesis using post by blast
qed

theorem registration_between_turns_witness:
  "(\<exists>w' r. com_redhat_logging_monitor (env_of (Inr (7, scenario_log))) world0 1
              [(''initial_lines'', 2)] 0 4 = (w', r, None)
          \<and> epoll w' = epoll world0 \<and> journals w' = journals world0)
   \<and> (\<exists>w' r monitor j.
          com_redhat_logging_monitor (env_of (Inr (7, scenario_log))) world0 1
              [(''initial_lines'', 2)] 1 4 = (w', r, Some monitor)
          \<and> journal monitor = Some j \<and> epoll w' (j_fd j) = Some (TAG_MONITOR 1)
          \<and> j_fd j \<in> journals w')"
proof -
  let ?ev = "env_of (Inr (7, scenario_log))"
  have opened: "env_journal_open ?ev = Inr (7, scenario_log)" "env_epoll_add ?ev = None"
    and reply: "env_reply ?ev = 0"
    by (simp_all add: env_of_def)
  have fresh: "epoll world0 7 = None" "7 \<notin> journals world0" by (simp_all add: world0_def)
  have lines: "varlink_object_get_int [(''initial_lines'', 2)] ''initial_lines'' 10 = 2"
    "\<not> (2 :: 64 word) <s 0"
    by (simp_all add: varlink_object_get_int_def word_sless_alt)
  have range: "unat (2 :: 64 word) < 2147483647" by simp
  note run = handler_run [OF opened fresh lines range translatable_scenario_log]
  obtain w0 r0 where
    run0: "com_redhat_logging_monitor ?ev world0 1 [(''initial_lines'', 2)] 0 4 = (w0, r0, None)"
    using run [of 1 0 4] reply by (simp add: Let_def)
  obtain w1 r1 monitor where
    run1: "com_redhat_logging_monitor ?ev world0 1 [(''initial_lines'', 2)] 1 4
      = (w1, r1, Some monitor)"
    using run [of 1 1 4] reply by (simp add: Let_def VARLINK_CALL_MORE_def)
  from registration_between_turns [OF world0_fresh run0]
  have "epoll w0 = epoll world0 \<and> journals w0 = journals world0" by simp
  moreover
  from registration_between_turns [OF world0_fresh run1]
  obtain j where "journal monitor = Some j" "epoll w1 (j_fd j) = Some (TAG_MONITOR 1)"
    "j_fd j \<in> journals w1" by auto
  ultimately show ?thesis using run0 run1 by blast
qed

text \<open>
  C5, as the claim states it, fails: \<^verbatim>\<open>monitor_new\<close>, the first step of the handler for
  every call, registers the descriptor of the reader before the handler looks at the
  flags. Inside the handler of a call that did not ask for more replies (flags 0) the
  descriptor 7 is registered; the handler then frees the Monitor and keeps nothing.
\<close>

theorem registration_counterexample:
  "epoll (fst (monitor_new (env_of (Inr (7, scenario_log))) world0 1 4)) 7 = Some (TAG_MONITOR 1)
   \<and> (0 :: 64 word) AND VARLINK_CALL_MORE = 0
   \<and> snd (snd (com_redhat_logging_monitor (env_of (Inr (7, scenario_log))) world0 1
                 [(''initial_lines'', 2)] 0 4)) = None"
proof -
  let ?ev = "env_of (Inr (7, scenario_log))"
  have opened: "env_journal_open ?ev = Inr (7, scenario_log)" "env_epoll_add ?ev = None"
    and reply: "env_reply ?ev = 0"
    by (simp_all add: env_of_def)
  have fresh: "epoll world0 7 = None" "7 \<notin> journals world0" by (simp_all add: world0_def)
  have lines: "varlink_object_get_int [(''initial_lines'', 2)] ''initial_lines'' 10 = 2"
    "\<not> (2 :: 64 word) <s 0"
    by (simp_all add: varlink_object_get_int_def word_sless_alt)
  have range: "unat (2 :: 64 word) < 2147483647" by simp
  have "epoll (fst (monitor_new ?ev world0 1 4)) 7 = Some (TAG_MONITOR 1)"
    by (simp add: monitor_new_opened [OF opened])
  moreover have "snd (snd (com_redhat_logging_monitor ?ev world0 1 [(''initial_lines'', 2)] 0 4)) = None"
    using reply by (simp add: handler_run [OF opened fresh lines range translatable_scenario_log] Let_def)
  ultimately show ?thesis by simp
qed

section \<open>An empty batch and the stored cursor\<close>

text \<open>
  C2. The code at a failing input. A streaming Monitor has delivered the three records of
  the log and stores the cursor \<open>c2\<close>. A read-batch that finds no new record returns an
  empty batch and leaves the Monitor without its cursor; so does the dispatch of an append
  notification without a new record, while a dispatch without a change keeps the cursor.
  When the log is then invalidated and holds a fourth record, the Monitor that lost its
  cursor seeks to the tail and sends nothing, where the Monitor with the cursor resumes
  from \<open>c2\<close>.
\<close>

theorem empty_batch_discards_cursor:
  "cursor (monitor_at scenario_log (LOCATION_DISCRETE 2) (Some ''c2'')) = Some ''c2''
   \<and> monitor_read_entries (monitor_at scenario_log (LOCATION_DISCRETE 2) (Some ''c2''))
       = (monitor_at scenario_log (LOCATION_DISCRETE 2) None, Inr ([], 0))
   \<and> monitor_dispatch (env_of (Inl EIO))
         (monitor_at scenario_log (LOCATION_DISCRETE 2) (Some ''c2''))
         (SD_JOURNAL_APPEND, scenario_log) world0
       = (world0, monitor_at scenario_log (LOCATION_DISCRETE 2) None, 0)
   \<and> monitor_dispatch (env_of (Inl EIO))
         (monitor_at scenario_log (LOCATION_DISCRETE 2) (Some ''c2''))
         (SD_JOURNAL_NOP, scenario_log) world0
       = (world0, monitor_at scenario_log (LOCATION_DISCRETE 2) (Some ''c2''), 0)
   \<and> monitor_dispatch (env_of (Inl EIO))
         (monitor_at scenario_log (LOCATION_DISCRETE 2) None)
         (SD_JOURNAL_INVALIDATE, scenario_log @ priority_log ''6'') world0
       = (world0, monitor_at (scenario_log @ priority_log ''6'') LOCATION_TAIL None, 0)
   \<and> fst (monitor_dispatch (env_of (Inl EIO))
         (monitor_at scenario_log (LOCATION_DISCRETE 2) (Some ''c2''))
         (SD_JOURNAL_INVALIDATE, scenario_log @ priority_log ''6'') world0)
       = world0\<lparr>replies :=
           [(1, Reply (map wire_entry (drop 2 (scenario_log @ priority_log ''6''))) True)]\<rparr>"
proof -
  let ?m = "monitor_at scenario_log (LOCATION_DISCRETE 2) (Some ''c2'')"
  let ?log = "scenario_log @ priority_log ''6''"
  have read: "monitor_read_entries ?m
      = (monitor_at scenario_log (LOCATION_DISCRETE 2) None, Inr ([], 0))"
    using monitor_read_entries_end [of ?m "journal_at scenario_log (LOCATION_DISCRETE 2)"]
    by (simp add: monitor_at_def journal_at_def next_index_def scenario_log_def)
  have "monitor_read_entries
      (?m\<lparr>journal := Some (journal_at scenario_log (LOCATION_DISCRETE 2)
                               \<lparr>j_entries := scenario_log\<rparr>)\<rparr>)
      = (monitor_at scenario_log (LOCATION_DISCRETE 2) None, Inr ([], 0))"
    using read by (simp add: monitor_at_def journal_at_def)
  then have append: "monitor_dispatch (env_of (Inl EIO)) ?m (SD_JOURNAL_APPEND, scenario_log) world0
      = (world0, monitor_at scenario_log (LOCATION_DISCRETE 2) None, 0)"
    by (simp add: monitor_dispatch_def sd_journal_process_def monitor_at_def
        SD_JOURNAL_APPEND_def SD_JOURNAL_INVALIDATE_def)
  have nop: "monitor_dispatch (env_of (Inl EIO)) ?m (SD_JOURNAL_NOP, scenario_log) world0
      = (world0, ?m, 0)"
    by (simp add: monitor_dispatch_def sd_journal_process_def monitor_at_def journal_at_def
        SD_JOURNAL_APPEND_def SD_JOURNAL_INVALIDATE_def SD_JOURNAL_NOP_def)
  have "monitor_read_entries
      (monitor_at scenario_log (LOCATION_DISCRETE 2) None
        \<lparr>journal := Some (journal_at scenario_log (LOCATION_DISCRETE 2)
                           \<lparr>j_entries := ?log, j_loc := LOCATION_TAIL\<rparr>)\<rparr>)
      = (monitor_at ?log LOCATION_TAIL None, Inr ([], 0))"
    using monitor_read_entries_end [of "monitor_at ?log LOCATION_TAIL None"
        "journal_at ?log LOCATION_TAIL"]
    by (simp add: monitor_at_def journal_at_def next_index_def)
  then have lost: "monitor_dispatch (env_of (Inl EIO))
      (monitor_at scenario_log (LOCATION_DISCRETE 2) None) (SD_JOURNAL_INVALIDATE, ?log) world0
      = (world0, monitor_at ?log LOCATION_TAIL None, 0)"
    by (simp add: monitor_dispatch_def sd_journal_process_def sd_journal_seek_tail_def
        monitor_at_def SD_JOURNAL_INVALIDATE_def)
  have j: "journal ?m = Some (journal_at scenario_log (LOCATION_DISCRETE 2))"
    and c: "cursor ?m = Some ''c2''"
    by (simp_all add: monitor_at_def)
  have f: "find_cursor ''c2'' ?log = Some 2" by (simp add: scenario_log_def)
  have t: "\<forall>r \<in> set (drop 2 ?log). translatable r"
    by (simp add: scenario_log_def priority_log_def translatable_def leading_integer_def
        c_string_def isspace_def isdigit_def)
  from monitor_dispatch_invalidate [OF j c f t, of "env_of (Inl EIO)" world0]
  have kept: "fst (monitor_dispatch (env_of (Inl EIO)) ?m (SD_JOURNAL_INVALIDATE, ?log) world0)
      = world0\<lparr>replies := [(1, Reply (map wire_entry (drop 2 ?log)) True)]\<rparr>"
    by (simp add: monitor_at_def world0_def)
  from c read append nop lost kept show ?thesis by simp
qed

end
